theory Spec2Isabelle
  imports Complex_Main "HOL-Library.AList" "HOL-Library.Product_Lexorder"
begin

section \<open>Data model of the allocator (match-allocator.js)\<close>

text \<open>
  JavaScript values that reach the allocator from the network. A JSON number is a
  decimal literal, so a finite number is modelled by its exact rational value; the
  rounding of IEEE doubles is not modelled. The three non-finite numbers are
  constructors of their own.
\<close>

datatype js_value =
    JUndefined
  | JNull
  | JBool bool
  | JNumber rat
  | JNaN
  | JInfinity
  | JNegInfinity
  | JString string
  | JObject

text \<open>\<^verbatim>\<open>Number.isFinite(v)\<close>: true only for a value of type number that is finite.\<close>

fun isFinite :: "js_value \<Rightarrow> bool" where
  "isFinite (JNumber r) = True"
| "isFinite v = False"

text \<open>The numeric value of a finite number; only read under \<open>isFinite\<close>.\<close>

fun numberValue :: "js_value \<Rightarrow> rat" where
  "numberValue (JNumber r) = r"
| "numberValue v = 0"

text \<open>
  The configuration constants of lines 14-19. The source reads them from the process
  environment with \<^verbatim>\<open>Number(process.env.X || default)\<close>; the model takes them as
  integer parameters.
\<close>

record config =
  FULL_MATCH_LIMIT :: int
  MAX_BACKUP_VMS :: int
  MIN_BACKUP_VMS :: int
  NEAR_CAPACITY_THRESHOLD :: int
  VM_UNREACHABLE_TERMINATE_THRESHOLD :: int
  VM_AGE_TERMINATE_MINUTES :: int

definition defaultConfig :: config where
  "defaultConfig =
     \<lparr> FULL_MATCH_LIMIT = 5, MAX_BACKUP_VMS = 10, MIN_BACKUP_VMS = 1,
       NEAR_CAPACITY_THRESHOLD = 1, VM_UNREACHABLE_TERMINATE_THRESHOLD = 2,
       VM_AGE_TERMINATE_MINUTES = 5 \<rparr>"

text \<open>A VM record, the value stored in \<^verbatim>\<open>vmPool\<close> under an instance id (line 43).\<close>

record vm =
  ip :: string
  matchCount :: rat
  unreachableCount :: int
  launchedAt :: int
  lastSeen :: int

text \<open>
  \<^verbatim>\<open>matchData\<close> as returned by \<^verbatim>\<open>launchUnityServerOnVM\<close> (lines 270-277), and the
  record stored in \<^verbatim>\<open>matches\<close> (line 409), which spreads it and adds two fields.
\<close>

record match_data =
  serverIP :: string
  serverPort :: int
  matchId :: string
  gameMode :: string
  tickRate :: int
  containerId :: string

record match_record = match_data +
  startedAt :: int
  vmInstanceId :: string

text \<open>Calls issued to the cloud client, kept as a trace in issue order.\<close>

datatype cloud_call = RunInstances | TerminateInstances string

text \<open>
  The module-level state (lines 44-51). \<^verbatim>\<open>vmPool\<close> and \<^verbatim>\<open>matches\<close> are plain
  objects; they are association lists in key insertion order, which is the order of
  \<^verbatim>\<open>Object.keys\<close> and \<^verbatim>\<open>Object.entries\<close> for keys that are not array indices.
  Assigning to a key is \<open>AList.update\<close> (an existing key keeps its place, a new
  one goes last) and \<^verbatim>\<open>delete\<close> is \<open>AList.delete\<close>. \<open>cloudLog\<close> is the trace of
  cloud calls made so far.
\<close>

record state =
  vmPool :: "(string \<times> vm) list"
  matches :: "(string \<times> match_record) list"
  protectedVM :: "string option"
  launching :: bool
  cloudLog :: "cloud_call list"

definition initialState :: state where
  "initialState =
     \<lparr> vmPool = [], matches = [], protectedVM = None, launching = False, cloudLog = [] \<rparr>"

text \<open>
  \<^verbatim>\<open>!x\<close> for a value that is null, undefined or a string: the empty string is falsy
  too.
\<close>

fun falsy :: "string option \<Rightarrow> bool" where
  "falsy None = True"
| "falsy (Some s) = (s = [])"

text \<open>
  A function that holds a reference to a VM object and assigns to its fields changes
  the record that \<^verbatim>\<open>vmPool\<close> holds under that key, when the key is still there.
\<close>

definition writeBack :: "string \<Rightarrow> vm \<Rightarrow> (string \<times> vm) list \<Rightarrow> (string \<times> vm) list" where
  "writeBack instanceId v pool = AList.map_entry instanceId (\<lambda>_. v) pool"

section \<open>Worker probe: refreshVmStatus (lines 202-234)\<close>

text \<open>
  The answer of \<^verbatim>\<open>GET /status\<close>: either the request fails (timeout, refused
  connection, HTTP error), or it yields \<^verbatim>\<open>data?.activeMatches\<close>, any JavaScript value.
\<close>

datatype probe = ProbeFailed | ProbeData js_value

definition ageMinutes :: "int \<Rightarrow> vm \<Rightarrow> rat" where
  "ageMinutes now v = of_int (now - launchedAt v) / (60 * 1000)"

definition refreshVmStatus ::
  "config \<Rightarrow> probe \<Rightarrow> int \<Rightarrow> string \<Rightarrow> vm \<Rightarrow> state \<Rightarrow> bool \<times> vm \<times> state" where
  "refreshVmStatus cfg pr now instanceId v st =
     (case pr of
        ProbeData activeMatches \<Rightarrow>
          let v1 = v\<lparr>matchCount := (if isFinite activeMatches then numberValue activeMatches else 0)\<rparr>;
              v2 = v1\<lparr>unreachableCount := 0\<rparr>;
              v3 = v2\<lparr>lastSeen := now\<rparr>;
              v4 = (if matchCount v3 < 0 then v3\<lparr>matchCount := 0\<rparr> else v3)
          in (True, v4, st\<lparr>vmPool := writeBack instanceId v4 (vmPool st)\<rparr>)
      | ProbeFailed \<Rightarrow>
          let v1 = v\<lparr>unreachableCount := unreachableCount v + 1\<rparr>;
              st1 = st\<lparr>vmPool := writeBack instanceId v1 (vmPool st)\<rparr>
          in if unreachableCount v1 \<ge> VM_UNREACHABLE_TERMINATE_THRESHOLD cfg
                \<and> ageMinutes now v1 \<ge> of_int (VM_AGE_TERMINATE_MINUTES cfg)
             then
               if protectedVM st1 \<noteq> Some instanceId
                  \<and> int (length (vmPool st1)) > MIN_BACKUP_VMS cfg
               then (False, v1,
                     st1\<lparr>cloudLog := cloudLog st1 @ [TerminateInstances instanceId],
                         vmPool := AList.delete instanceId (vmPool st1)\<rparr>)
               else (False, v1, st1)
             else (False, v1, st1))"

section \<open>Launching a VM: launchBackupVM (lines 132-196)\<close>

text \<open>An instance as \<^verbatim>\<open>DescribeInstances\<close> reports it; a missing address list is \<open>[]\<close>.\<close>

record cloud_instance =
  InstanceId :: string
  InstanceState :: string
  PublicIpAddresses :: "string list"

text \<open>
  One poll of \<^verbatim>\<open>DescribeInstances({InstanceIds: [instanceId]})\<close>: the call throws, or
  it yields \<^verbatim>\<open>desc.InstanceSet?.[0]\<close>.
\<close>

datatype poll = PollThrows | PollAnswer "cloud_instance option"

text \<open>
  What the cloud does during one launch: \<open>runResult\<close> is \<^verbatim>\<open>res.InstanceIdSet?.[0]\<close>
  (\<open>None\<close> when \<^verbatim>\<open>RunInstances\<close> throws or returns no id), \<open>polls i\<close> is the answer
  to the poll of loop index \<open>i\<close>, \<open>readyTime\<close> is the clock when the record is made.
\<close>

record launch_env =
  runResult :: "string option"
  polls :: "nat \<Rightarrow> poll"
  readyTime :: int

definition maxPoll :: nat where
  "maxPoll = 40"

text \<open>
  The polling loop from index \<open>i\<close> with \<open>k\<close> iterations left; it yields the address
  at which it breaks, or \<open>None\<close> when it runs out.
\<close>

fun pollLoop :: "(nat \<Rightarrow> poll) \<Rightarrow> nat \<Rightarrow> nat \<Rightarrow> string option" where
  "pollLoop ps i 0 = None"
| "pollLoop ps i (Suc k) =
     (case ps i of
        PollAnswer (Some inst) \<Rightarrow>
          (if InstanceState inst = ''RUNNING''
           then (case PublicIpAddresses inst of
                   a # _ \<Rightarrow> Some a
                 | [] \<Rightarrow> pollLoop ps (Suc i) k)
           else pollLoop ps (Suc i) k)
      | PollAnswer None \<Rightarrow> pollLoop ps (Suc i) k
      | PollThrows \<Rightarrow> pollLoop ps (Suc i) k)"

definition newVm :: "string \<Rightarrow> int \<Rightarrow> vm" where
  "newVm a now =
     \<lparr> ip = a, matchCount = 0, unreachableCount = 0, launchedAt = now, lastSeen = now \<rparr>"

definition launchBackupVM ::
  "config \<Rightarrow> launch_env \<Rightarrow> state \<Rightarrow> (string \<times> string) option \<times> state" where
  "launchBackupVM cfg env st =
     (if launching st then (None, st)
      else if int (length (vmPool st)) \<ge> MAX_BACKUP_VMS cfg then (None, st)
      else
        let st0 = st\<lparr>launching := True, cloudLog := cloudLog st @ [RunInstances]\<rparr> in
        if falsy (runResult env) then (None, st0\<lparr>launching := False\<rparr>)
        else
          (case runResult env of
             None \<Rightarrow> (None, st0\<lparr>launching := False\<rparr>)
           | Some instanceId \<Rightarrow>
               let found = pollLoop (polls env) 0 maxPoll;
                   st1 = (case found of
                            Some a \<Rightarrow>
                              st0\<lparr>vmPool :=
                                    AList.update instanceId (newVm a (readyTime env)) (vmPool st0)\<rparr>
                          | None \<Rightarrow> st0);
                   st2 = (if falsy (protectedVM st1)
                          then st1\<lparr>protectedVM := Some instanceId\<rparr> else st1)
               in if falsy found
                  then (None,
                        st2\<lparr>cloudLog := cloudLog st2 @ [TerminateInstances instanceId],
                            vmPool := AList.delete instanceId (vmPool st2),
                            launching := False\<rparr>)
                  else (case found of
                          Some a \<Rightarrow> (Some (instanceId, a), st2\<lparr>launching := False\<rparr>)
                        | None \<Rightarrow> (None, st2\<lparr>launching := False\<rparr>))))"

section \<open>Allocation: getAvailableVM (lines 240-257)\<close>

text \<open>
  Under \<^verbatim>\<open>Promise.all\<close> (line 243) every probe is in flight at once, and a call of
  \<^verbatim>\<open>refreshVmStatus\<close> runs in two pieces. The first piece runs when the answer of the
  probe arrives and ends at the \<^verbatim>\<open>await\<close> of line 222: it updates the record and, on a
  failure, tests the guards of lines 217 and 219 and calls \<^verbatim>\<open>TerminateInstances\<close>. The
  boolean tells whether that call was made, so that the \<^verbatim>\<open>delete\<close> of line 226 is still
  to come. A successful probe has no \<^verbatim>\<open>await\<close> after the answer.
\<close>

definition probeAnswered ::
  "config \<Rightarrow> probe \<Rightarrow> int \<Rightarrow> string \<Rightarrow> vm \<Rightarrow> state \<Rightarrow> bool \<times> state" where
  "probeAnswered cfg pr now instanceId v st =
     (case pr of
        ProbeData activeMatches \<Rightarrow>
          (False, snd (snd (refreshVmStatus cfg (ProbeData activeMatches) now instanceId v st)))
      | ProbeFailed \<Rightarrow>
          let v1 = v\<lparr>unreachableCount := unreachableCount v + 1\<rparr>;
              st1 = st\<lparr>vmPool := writeBack instanceId v1 (vmPool st)\<rparr>
          in if unreachableCount v1 \<ge> VM_UNREACHABLE_TERMINATE_THRESHOLD cfg
                \<and> ageMinutes now v1 \<ge> of_int (VM_AGE_TERMINATE_MINUTES cfg)
                \<and> protectedVM st1 \<noteq> Some instanceId
                \<and> int (length (vmPool st1)) > MIN_BACKUP_VMS cfg
             then (True, st1\<lparr>cloudLog := cloudLog st1 @ [TerminateInstances instanceId]\<rparr>)
             else (False, st1))"

text \<open>
  What happens while the promises are pending: the answer of the probe of an instance
  arrives, or the \<^verbatim>\<open>TerminateInstances\<close> call made for an instance returns (or throws,
  which line 223 catches), after which line 226 deletes the key.
\<close>

datatype probe_event = Answered string | TerminateReturned string

text \<open>
  One event. \<open>waiting\<close> holds the entries whose probe has not answered yet, with the
  record each handler was given; \<open>pending\<close> holds the instances whose
  \<^verbatim>\<open>TerminateInstances\<close> call has not returned. An event for an instance that is not
  waiting, or not pending, is no event of this run and changes nothing.
\<close>

definition refreshEvent ::
  "config \<Rightarrow> (string \<Rightarrow> probe) \<Rightarrow> (string \<Rightarrow> int) \<Rightarrow> probe_event
     \<Rightarrow> (string \<times> vm) list \<times> string list \<times> state \<Rightarrow> (string \<times> vm) list \<times> string list \<times> state" where
  "refreshEvent cfg pr tm ev c =
     (case c of (waiting, pending, st) \<Rightarrow>
        (case ev of
           Answered i \<Rightarrow>
             (case map_of waiting i of
                None \<Rightarrow> c
              | Some v \<Rightarrow>
                  (case probeAnswered cfg (pr i) (tm i) i v st of
                     (terminating, st') \<Rightarrow>
                       (AList.delete i waiting,
                        (if terminating then pending @ [i] else pending), st')))
         | TerminateReturned i \<Rightarrow>
             if i \<in> set pending
             then (waiting, removeAll i pending, st\<lparr>vmPool := AList.delete i (vmPool st)\<rparr>)
             else c))"

fun refreshEvents ::
  "config \<Rightarrow> (string \<Rightarrow> probe) \<Rightarrow> (string \<Rightarrow> int) \<Rightarrow> probe_event list
     \<Rightarrow> (string \<times> vm) list \<times> string list \<times> state \<Rightarrow> (string \<times> vm) list \<times> string list \<times> state" where
  "refreshEvents cfg pr tm [] c = c"
| "refreshEvents cfg pr tm (ev # evs) c = refreshEvents cfg pr tm evs (refreshEvent cfg pr tm ev c)"

text \<open>
  An event touches the instance \<open>i\<close> when it is the answer of its probe while that is
  awaited, or the return of its termination call while that is awaited.
\<close>

definition touches :: "probe_event \<Rightarrow> string \<Rightarrow> (string \<times> vm) list \<Rightarrow> string list \<Rightarrow> bool" where
  "touches ev i waiting pending =
     ((ev = Answered i \<and> map_of waiting i \<noteq> None) \<or> (ev = TerminateReturned i \<and> i \<in> set pending))"

text \<open>
  \<^verbatim>\<open>Promise.all\<close> resolves when every probe has answered and every call has returned.
  Every probe answers, by its timeout at the latest, so the probes that the given events
  leave waiting answer afterwards, in the order of the entries, and the calls still
  pending return last.
\<close>

definition settle ::
  "config \<Rightarrow> (string \<Rightarrow> probe) \<Rightarrow> (string \<Rightarrow> int)
     \<Rightarrow> (string \<times> vm) list \<times> string list \<times> state \<Rightarrow> state" where
  "settle cfg pr tm c =
     (let c1 = refreshEvents cfg pr tm (map (\<lambda>entry. Answered (fst entry)) (fst c)) c;
          c2 = refreshEvents cfg pr tm (map TerminateReturned (fst (snd c1))) c1
      in snd (snd c2))"

text \<open>
  Line 243 for the entries taken at line 242. \<open>pr i\<close> is the worker's answer for
  instance \<open>i\<close> and \<open>tm i\<close> the clock when it arrives; \<open>events\<close> is the order in which
  answers arrive and calls return.
\<close>

definition refreshAll ::
  "config \<Rightarrow> (string \<Rightarrow> probe) \<Rightarrow> (string \<Rightarrow> int) \<Rightarrow> probe_event list \<Rightarrow> (string \<times> vm) list
     \<Rightarrow> state \<Rightarrow> state" where
  "refreshAll cfg pr tm events entries st =
     settle cfg pr tm (refreshEvents cfg pr tm events (entries, [], st))"

text \<open>
  Line 246-248: the filter on \<^verbatim>\<open>matchCount\<close> alone, then the sort whose comparator
  is the difference of \<^verbatim>\<open>matchCount\<close> and, when that is 0, of \<^verbatim>\<open>lastSeen\<close>: a
  stable sort on the pair.
\<close>

definition candidates :: "config \<Rightarrow> state \<Rightarrow> (string \<times> vm) list" where
  "candidates cfg st =
     sort_key (\<lambda>(instanceId, v). (matchCount v, lastSeen v))
       (filter (\<lambda>(instanceId, v). matchCount v < of_int (FULL_MATCH_LIMIT cfg)) (vmPool st))"

record alloc_env =
  probeOf :: "string \<Rightarrow> probe"
  probeTime :: "string \<Rightarrow> int"
  arrival :: "probe_event list"
  launchEnv :: launch_env

definition getAvailableVM ::
  "config \<Rightarrow> alloc_env \<Rightarrow> state \<Rightarrow> (string \<times> string) option \<times> state" where
  "getAvailableVM cfg env st =
     (let st1 = refreshAll cfg (probeOf env) (probeTime env) (arrival env) (vmPool st) st
      in case candidates cfg st1 of
           (instanceId, v) # _ \<Rightarrow> (Some (instanceId, ip v), st1)
         | [] \<Rightarrow> launchBackupVM cfg (launchEnv env) st1)"

section \<open>The reconciler: syncWithCloud, recomputeProtectedVM, updateVMs\<close>

text \<open>Lines 73-74: a later instance with the same id replaces an earlier one.\<close>

definition cloudMap :: "cloud_instance list \<Rightarrow> string \<Rightarrow> cloud_instance option" where
  "cloudMap allInstances = map_of (rev (map (\<lambda>inst. (InstanceId inst, inst)) allInstances))"

text \<open>Lines 77-90, over the keys that \<^verbatim>\<open>vmPool\<close> had when the loop began.\<close>

definition dropVm :: "string \<Rightarrow> state \<Rightarrow> state" where
  "dropVm instanceId st =
     st\<lparr>vmPool := AList.delete instanceId (vmPool st),
        protectedVM := (if protectedVM st = Some instanceId then None else protectedVM st)\<rparr>"

fun syncRemove :: "(string \<Rightarrow> cloud_instance option) \<Rightarrow> string list \<Rightarrow> state \<Rightarrow> state" where
  "syncRemove cm [] st = st"
| "syncRemove cm (instanceId # ids) st =
     syncRemove cm ids
       (case cm instanceId of
          None \<Rightarrow> dropVm instanceId st
        | Some inst \<Rightarrow>
            if InstanceState inst \<noteq> ''RUNNING'' then dropVm instanceId st
            else
              (case PublicIpAddresses inst of
                 [] \<Rightarrow> st
               | a # _ \<Rightarrow>
                   if a \<noteq> []
                   then st\<lparr>vmPool :=
                           AList.map_entry instanceId
                             (\<lambda>v. if ip v \<noteq> a then v\<lparr>ip := a\<rparr> else v) (vmPool st)\<rparr>
                   else st))"

text \<open>Lines 93-108.\<close>

fun syncAdd :: "int \<Rightarrow> cloud_instance list \<Rightarrow> state \<Rightarrow> state" where
  "syncAdd now [] st = st"
| "syncAdd now (inst # insts) st =
     syncAdd now insts
       (if InstanceState inst \<noteq> ''RUNNING'' then st
        else
          (case PublicIpAddresses inst of
             [] \<Rightarrow> st
           | a # _ \<Rightarrow>
               if a = [] then st
               else if map_of (vmPool st) (InstanceId inst) = None
               then st\<lparr>vmPool := AList.update (InstanceId inst) (newVm a now) (vmPool st)\<rparr>
               else st))"

text \<open>
  \<^verbatim>\<open>ids.sort((a, b) => vmPool[a].launchedAt - vmPool[b].launchedAt); ids[0]\<close>: the
  stable sort of the keys by \<^verbatim>\<open>launchedAt\<close>, written on the entries.
\<close>

definition oldestFirst :: "(string \<times> vm) list \<Rightarrow> string list" where
  "oldestFirst entries = map fst (sort_key (\<lambda>(instanceId, v). launchedAt v) entries)"

definition chooseOldest :: "state \<Rightarrow> state" where
  "chooseOldest st =
     (case oldestFirst (vmPool st) of
        [] \<Rightarrow> st
      | instanceId # _ \<Rightarrow> st\<lparr>protectedVM := Some instanceId\<rparr>)"

text \<open>\<open>None\<close> for the instances means that \<^verbatim>\<open>DescribeInstances\<close> threw (line 122).\<close>

definition syncWithCloud :: "cloud_instance list option \<Rightarrow> int \<Rightarrow> state \<Rightarrow> state" where
  "syncWithCloud described now st =
     (case described of
        None \<Rightarrow> st
      | Some allInstances \<Rightarrow>
          let st1 = syncRemove (cloudMap allInstances) (map fst (vmPool st)) st;
              st2 = syncAdd now allInstances st1
          in if falsy (protectedVM st2) then chooseOldest st2
             else (case protectedVM st2 of
                     None \<Rightarrow> st2
                   | Some p \<Rightarrow>
                       if map_of (vmPool st2) p = None then st2\<lparr>protectedVM := None\<rparr> else st2))"

text \<open>Lines 289-318; the recursive call of line 303 runs the first branch.\<close>

definition recomputeProtectedVM :: "int \<Rightarrow> state \<Rightarrow> state" where
  "recomputeProtectedVM now st =
     (if falsy (protectedVM st) then chooseOldest st
      else
        (case protectedVM st of
           None \<Rightarrow> chooseOldest st
         | Some p \<Rightarrow>
             (case map_of (vmPool st) p of
                None \<Rightarrow> chooseOldest (st\<lparr>protectedVM := None\<rparr>)
              | Some current \<Rightarrow>
                  let idleForMs =
                        now - (if lastSeen current \<noteq> 0 then lastSeen current else launchedAt current);
                      idleForMinutes = (of_int idleForMs :: rat) / (60 * 1000)
                  in if idleForMinutes > 60
                     then (case oldestFirst (filter (\<lambda>(instanceId, v). instanceId \<noteq> p) (vmPool st)) of
                             [] \<Rightarrow> st
                           | c # _ \<Rightarrow> st\<lparr>protectedVM := Some c\<rparr>)
                     else st)))"

text \<open>
  The body of the loop of lines 331-361 for one entry: the probe, the count of free
  slots, and the termination of an idle VM. The pair carries \<^verbatim>\<open>totalFreeSlots\<close>;
  \<open>now\<close> is the clock reading of the iteration.
\<close>

definition reconcileVm ::
  "config \<Rightarrow> probe \<Rightarrow> int \<Rightarrow> string \<times> vm \<Rightarrow> rat \<times> state \<Rightarrow> rat \<times> state" where
  "reconcileVm cfg pr now entry acc =
     (case entry of (instanceId, v) \<Rightarrow>
      case acc of (totalFreeSlots, st) \<Rightarrow>
      case refreshVmStatus cfg pr now instanceId v st of (statusOk, v', st1) \<Rightarrow>
        if statusOk then
          let freeSlots = max 0 (of_int (FULL_MATCH_LIMIT cfg) - matchCount v');
              total = totalFreeSlots + freeSlots
          in if matchCount v' = 0
                \<and> int (length (vmPool st1)) > MIN_BACKUP_VMS cfg
                \<and> protectedVM st1 \<noteq> Some instanceId
             then
               if ageMinutes now v' \<ge> of_int (VM_AGE_TERMINATE_MINUTES cfg)
               then (total,
                     st1\<lparr>cloudLog := cloudLog st1 @ [TerminateInstances instanceId],
                         vmPool := AList.delete instanceId (vmPool st1),
                         protectedVM :=
                           (if protectedVM st1 = Some instanceId then None else protectedVM st1)\<rparr>)
               else (total, st1)
             else (total, st1)
        else (totalFreeSlots, st1))"

fun reconcileAll ::
  "config \<Rightarrow> (string \<Rightarrow> probe) \<Rightarrow> (string \<Rightarrow> int) \<Rightarrow> (string \<times> vm) list \<Rightarrow> rat \<times> state
     \<Rightarrow> rat \<times> state" where
  "reconcileAll cfg pr tm [] acc = acc"
| "reconcileAll cfg pr tm (entry # entries) acc =
     reconcileAll cfg pr tm entries (reconcileVm cfg (pr (fst entry)) (tm (fst entry)) entry acc)"

text \<open>
  The loop of lines 368-370: \<open>k\<close> more awaited calls of \<^verbatim>\<open>launchBackupVM\<close>, the call
  of loop index \<open>i\<close> meeting the cloud behaviour \<open>envs i\<close>.
\<close>

fun launchMany :: "config \<Rightarrow> (nat \<Rightarrow> launch_env) \<Rightarrow> nat \<Rightarrow> nat \<Rightarrow> state \<Rightarrow> state" where
  "launchMany cfg envs i 0 st = st"
| "launchMany cfg envs i (Suc k) st =
     launchMany cfg envs (Suc i) k (snd (launchBackupVM cfg (envs i) st))"

text \<open>Lines 364-371.\<close>

definition topUp :: "config \<Rightarrow> (nat \<Rightarrow> launch_env) \<Rightarrow> state \<Rightarrow> state" where
  "topUp cfg envs st =
     (let runningCount = int (length (vmPool st))
      in if runningCount < MIN_BACKUP_VMS cfg
         then launchMany cfg envs 0 (nat (MIN_BACKUP_VMS cfg - runningCount)) st
         else st)"

record tick_env =
  describeAll :: "cloud_instance list option"
  syncTime :: int
  tickProbe :: "string \<Rightarrow> probe"
  tickProbeTime :: "string \<Rightarrow> int"
  topUpLaunch :: "nat \<Rightarrow> launch_env"
  scaleUpLaunch :: launch_env
  protectTime :: int

text \<open>Phases 1 to 3 of \<^verbatim>\<open>updateVMs\<close>: the state and \<^verbatim>\<open>totalFreeSlots\<close> at line 373.\<close>

definition beforeScaleUp :: "config \<Rightarrow> tick_env \<Rightarrow> state \<Rightarrow> rat \<times> state" where
  "beforeScaleUp cfg env st =
     (let st1 = syncWithCloud (describeAll env) (syncTime env) st
      in case reconcileAll cfg (tickProbe env) (tickProbeTime env) (vmPool st1) (0, st1) of
           (totalFreeSlots, st2) \<Rightarrow> (totalFreeSlots, topUp cfg (topUpLaunch env) st2))"

text \<open>The condition of line 374.\<close>

definition lowCapacity :: "config \<Rightarrow> rat \<times> state \<Rightarrow> bool" where
  "lowCapacity cfg acc =
     (fst acc \<le> of_int (NEAR_CAPACITY_THRESHOLD cfg)
      \<and> int (length (vmPool (snd acc))) < MAX_BACKUP_VMS cfg)"

definition updateVMs :: "config \<Rightarrow> tick_env \<Rightarrow> state \<Rightarrow> state" where
  "updateVMs cfg env st =
     (let acc = beforeScaleUp cfg env st;
          st4 = (if lowCapacity cfg acc
                 then snd (launchBackupVM cfg (scaleUpLaunch env) (snd acc))
                 else snd acc)
      in recomputeProtectedVM (protectTime env) st4)"

section \<open>Match requests (lines 262-282, 387-431)\<close>

definition SCENE_MAP :: "(string \<times> string) list" where
  "SCENE_MAP =
     [(''VersusMen_Online'', ''SelectionScreenMen_Online''),
      (''VersusWomen_Online'', ''SelectionScreenWomen_Online''),
      (''KunBoran_Online'', ''SelectionScreenMen_Online_KunBoran'')]"

text \<open>
  \<^verbatim>\<open>SCENE_MAP\<close> is an object literal, so its prototype is \<^verbatim>\<open>Object.prototype\<close> and
  \<^verbatim>\<open>SCENE_MAP[gameMode]\<close> also finds the properties inherited from it. These are the
  property names of \<^verbatim>\<open>Object.prototype\<close>; each holds a function or an object, which
  is truthy.
\<close>

definition objectPrototypeKeys :: "string list" where
  "objectPrototypeKeys =
     [''constructor'', ''__proto__'', ''hasOwnProperty'', ''isPrototypeOf'',
      ''propertyIsEnumerable'', ''toLocaleString'', ''toString'', ''valueOf'',
      ''__defineGetter__'', ''__defineSetter__'', ''__lookupGetter__'',
      ''__lookupSetter__'']"

text \<open>Whether \<^verbatim>\<open>SCENE_MAP[gameMode]\<close> is truthy.\<close>

definition sceneTruthy :: "string \<Rightarrow> bool" where
  "sceneTruthy g =
     (case map_of SCENE_MAP g of
        Some scene \<Rightarrow> scene \<noteq> []
      | None \<Rightarrow> g \<in> set objectPrototypeKeys)"

text \<open>
  The body of a match request. A field is \<open>None\<close> when it is missing; fields that hold
  a JSON value other than a string are not modelled.
\<close>

record request =
  body_matchId :: "string option"
  body_gameMode :: "string option"
  body_tickRate :: "int option"
  body_matchType :: "string option"

record start_payload =
  p_matchId :: string
  p_gameMode :: string
  p_matchPrivacy :: string
  p_tickRate :: int
  p_matchType :: string

text \<open>
  The answer of \<^verbatim>\<open>POST /start-match\<close>: \<open>StartFailed\<close> when the request fails or
  the body is missing or has a falsy \<^verbatim>\<open>success\<close>, else the port and container id.
\<close>

datatype start_result = StartFailed | StartOk int string

text \<open>\<open>None\<close> is the rethrown error of lines 278-281.\<close>

definition launchUnityServerOnVM ::
  "(string \<Rightarrow> start_payload \<Rightarrow> start_result) \<Rightarrow> string \<Rightarrow> string \<Rightarrow> string \<Rightarrow> string \<Rightarrow> int \<Rightarrow> string
     \<Rightarrow> match_data option" where
  "launchUnityServerOnVM worker vmIP mid gm matchPrivacy tr matchType =
     (case worker vmIP \<lparr> p_matchId = mid, p_gameMode = gm, p_matchPrivacy = matchPrivacy,
                         p_tickRate = tr, p_matchType = matchType \<rparr> of
        StartFailed \<Rightarrow> None
      | StartOk port cid \<Rightarrow>
          Some \<lparr> serverIP = vmIP, serverPort = port, matchId = mid, gameMode = gm,
                 tickRate = tr, containerId = cid \<rparr>)"

datatype 'a response = Json 'a | Status nat

text \<open>
  What a match request meets. The handler is suspended at line 399 until the worker
  answers, for up to 15 seconds, and the timer of line 444 keeps firing: \<open>meanwhile\<close>
  holds the reconciler ticks that run during that time, and \<open>startTime\<close> is the clock
  when the handler resumes.
\<close>

record request_env =
  allocEnv :: alloc_env
  startMatch :: "string \<Rightarrow> start_payload \<Rightarrow> start_result"
  meanwhile :: "tick_env list"
  startTime :: int

fun runTicks :: "config \<Rightarrow> tick_env list \<Rightarrow> state \<Rightarrow> state" where
  "runTicks cfg [] st = st"
| "runTicks cfg (tick # ticks) st = runTicks cfg ticks (updateVMs cfg tick st)"

text \<open>Line 389: \<^verbatim>\<open>tickRate = 30\<close> when the body has none.\<close>

definition requestTickRate :: "request \<Rightarrow> int" where
  "requestTickRate req = (case body_tickRate req of None \<Rightarrow> 30 | Some t \<Rightarrow> t)"

text \<open>Line 398.\<close>

definition payloadMatchType :: "string \<Rightarrow> request \<Rightarrow> string" where
  "payloadMatchType matchPrivacy req =
     (case body_matchType req of
        None \<Rightarrow> (if matchPrivacy = ''Private'' then ''CustomPrivate'' else ''QuickPlay'')
      | Some t \<Rightarrow>
          if t = [] then (if matchPrivacy = ''Private'' then ''CustomPrivate'' else ''QuickPlay'')
          else t)"

text \<open>
  Lines 409-414 and the \<^verbatim>\<open>catch\<close> of lines 415-418: what the handler does when it
  resumes in the state \<open>st\<close>, with the result of \<^verbatim>\<open>launchUnityServerOnVM\<close>.
\<close>

definition completeMatchRequest ::
  "string \<Rightarrow> string \<Rightarrow> int \<Rightarrow> match_data option \<Rightarrow> state \<Rightarrow> match_data response \<times> state" where
  "completeMatchRequest mid instanceId now started st =
     (case started of
        None \<Rightarrow> (Status 500, st)
      | Some matchData \<Rightarrow>
          (let st2 = st\<lparr>matches :=
                       AList.update mid
                         (match_data.extend matchData
                            \<lparr> startedAt = now, vmInstanceId = instanceId \<rparr>)
                         (matches st)\<rparr>;
               st3 = st2\<lparr>vmPool :=
                       AList.map_entry instanceId
                         (\<lambda>v. v\<lparr>matchCount := matchCount v + 1\<rparr>) (vmPool st2)\<rparr>
           in (Json matchData, st3)))"

definition handleMatchRequest ::
  "config \<Rightarrow> string \<Rightarrow> request \<Rightarrow> request_env \<Rightarrow> state \<Rightarrow> match_data response \<times> state" where
  "handleMatchRequest cfg matchPrivacy req env st =
     (case (body_matchId req, body_gameMode req) of
        (Some mid, Some gm) \<Rightarrow>
          if mid = [] \<or> gm = [] \<or> \<not> sceneTruthy gm then (Status 400, st)
          else
            (case getAvailableVM cfg (allocEnv env) st of
               (None, st1) \<Rightarrow> (Status 503, st1)
             | (Some (instanceId, vmIP), st1) \<Rightarrow>
                 completeMatchRequest mid instanceId (startTime env)
                   (launchUnityServerOnVM (startMatch env) vmIP mid gm matchPrivacy
                      (requestTickRate req) (payloadMatchType matchPrivacy req))
                   (runTicks cfg (meanwhile env) st1))
      | _ \<Rightarrow> (Status 400, st))"

text \<open>
  \<^verbatim>\<open>GET /api/match-details/:matchId\<close> (lines 425-431). It reads the state and
  returns a response; the lookup is modelled for the keys stored in \<^verbatim>\<open>matches\<close>.
\<close>

definition matchDetails :: "string \<Rightarrow> state \<Rightarrow> match_record response" where
  "matchDetails mid st =
     (if mid = [] then Status 400
      else case map_of (matches st) mid of
             None \<Rightarrow> Status 404
           | Some matchData \<Rightarrow> Json matchData)"

section \<open>Quantities the properties speak about\<close>

text \<open>The number of \<^verbatim>\<open>RunInstances\<close> calls made so far.\<close>

definition launchCount :: "state \<Rightarrow> nat" where
  "launchCount st = length (filter (\<lambda>c. c = RunInstances) (cloudLog st))"

text \<open>\<^verbatim>\<open>diff\<close> of line 366, and 0 when the pool is at the minimum or above.\<close>

definition deficit :: "config \<Rightarrow> state \<Rightarrow> nat" where
  "deficit cfg st = nat (MIN_BACKUP_VMS cfg - int (length (vmPool st)))"

text \<open>The value of \<^verbatim>\<open>protectedVM\<close> after lines 176-179 for the instance \<open>i\<close>.\<close>

definition protectIfNone :: "string \<Rightarrow> state \<Rightarrow> string option" where
  "protectIfNone i st = (if falsy (protectedVM st) then Some i else protectedVM st)"

text \<open>
  The guard that both termination paths of the reconciler apply to the VM \<open>i\<close> with
  record \<open>v\<close> (lines 217-219 and 339-345): it is not the protected VM, it is old
  enough, and the pool is above the minimum.
\<close>

definition mayTerminate :: "config \<Rightarrow> int \<Rightarrow> string \<Rightarrow> vm \<Rightarrow> state \<Rightarrow> bool" where
  "mayTerminate cfg now i v st =
     (protectedVM st \<noteq> Some i
      \<and> of_int (VM_AGE_TERMINATE_MINUTES cfg) \<le> ageMinutes now v
      \<and> MIN_BACKUP_VMS cfg < int (length (vmPool st)))"

text \<open>The state after \<^verbatim>\<open>TerminateInstances\<close> and \<^verbatim>\<open>delete vmPool[i]\<close> for a VM whose
  record was last written as \<open>v\<close>.\<close>

definition terminated :: "string \<Rightarrow> vm \<Rightarrow> state \<Rightarrow> state" where
  "terminated i v st =
     st\<lparr>cloudLog := cloudLog st @ [TerminateInstances i],
        vmPool := AList.delete i (writeBack i v (vmPool st))\<rparr>"

text \<open>The record after a successful probe that reported \<open>a\<close> at time \<open>now\<close>.\<close>

definition probed :: "js_value \<Rightarrow> int \<Rightarrow> vm \<Rightarrow> vm" where
  "probed a now v =
     v\<lparr>matchCount := (if isFinite a \<and> 0 \<le> numberValue a then numberValue a else 0),
       unreachableCount := 0, lastSeen := now\<rparr>"

text \<open>
  A launch that succeeds with the instance id \<open>i\<close>: \<^verbatim>\<open>RunInstances\<close> returns \<open>i\<close> and
  a poll finds the instance running with an address.
\<close>

definition launchSucceeds :: "launch_env \<Rightarrow> string \<Rightarrow> bool" where
  "launchSucceeds e i =
     (runResult e = Some i \<and> i \<noteq> []
      \<and> (case pollLoop (polls e) 0 maxPoll of None \<Rightarrow> False | Some a \<Rightarrow> a \<noteq> []))"

section \<open>Concrete pools and environments\<close>

definition vmA :: vm where
  "vmA = \<lparr> ip = ''10.0.0.1'', matchCount = 0, unreachableCount = 0, launchedAt = 0, lastSeen = 0 \<rparr>"

text \<open>One tracked VM, which is the protected one.\<close>

definition poolA :: state where
  "poolA = initialState\<lparr>vmPool := [(''ins-a'', vmA)], protectedVM := Some ''ins-a''\<rparr>"

text \<open>A launch whose instance never reaches \<^verbatim>\<open>RUNNING\<close> within the polls.\<close>

definition neverReady :: launch_env where
  "neverReady =
     \<lparr> runResult = Some ''ins-new'', polls = (\<lambda>i. PollAnswer None), readyTime = 0 \<rparr>"

text \<open>Every status probe fails, one second after the VMs were launched.\<close>

definition allFail :: alloc_env where
  "allFail =
     \<lparr> probeOf = (\<lambda>i. ProbeFailed), probeTime = (\<lambda>i. 1000), arrival = [Answered ''ins-a''],
       launchEnv = neverReady \<rparr>"

text \<open>Every worker reports two active matches and starts the match it is asked for.\<close>

definition healthy :: alloc_env where
  "healthy =
     \<lparr> probeOf = (\<lambda>i. ProbeData (JNumber 2)), probeTime = (\<lambda>i. 1000),
       arrival = [Answered ''ins-a'', Answered ''ins-b''], launchEnv = neverReady \<rparr>"

definition workerOk :: request_env where
  "workerOk =
     \<lparr> allocEnv = healthy, startMatch = (\<lambda>a p. StartOk 7001 ''c1''), meanwhile = [],
       startTime = 2000 \<rparr>"

definition inheritedRequest :: request where
  "inheritedRequest =
     \<lparr> body_matchId = Some ''m2'', body_gameMode = Some ''constructor'',
       body_tickRate = None, body_matchType = None \<rparr>"

text \<open>A launch that finds the instance \<open>i\<close> running at address \<open>a\<close> on the first poll.\<close>

definition readyLaunch :: "string \<Rightarrow> string \<Rightarrow> int \<Rightarrow> launch_env" where
  "readyLaunch i a t =
     \<lparr> runResult = Some i,
       polls = (\<lambda>j. PollAnswer (Some \<lparr> InstanceId = i, InstanceState = ''RUNNING'',
                                       PublicIpAddresses = [a] \<rparr>)),
       readyTime = t \<rparr>"

text \<open>A configuration that asks for two warm VMs, and one with a pool ceiling of 1.\<close>

definition twoWarm :: config where
  "twoWarm = defaultConfig\<lparr>MIN_BACKUP_VMS := 2\<rparr>"


text \<open>
  A configuration that asks for three warm VMs, and launches that all succeed at once,
  the launch of loop index \<open>n\<close> with the id \<open>newId n\<close>.
\<close>

definition threeWarm :: config where
  "threeWarm = defaultConfig\<lparr>MIN_BACKUP_VMS := 3\<rparr>"

definition newId :: "nat \<Rightarrow> string" where
  "newId n = ''ins-'' @ replicate (Suc n) (CHR ''i'')"

definition warmLaunches :: "nat \<Rightarrow> launch_env" where
  "warmLaunches n = readyLaunch (newId n) ''10.0.1.1'' 5000"

text \<open>A tick against a cloud with no instances, where every launch succeeds at once.\<close>

definition coldStart :: tick_env where
  "coldStart =
     \<lparr> describeAll = Some [], syncTime = 0,
       tickProbe = (\<lambda>i. ProbeFailed), tickProbeTime = (\<lambda>i. 0),
       topUpLaunch = (\<lambda>k. if k = 0 then readyLaunch ''ins-1'' ''10.0.0.1'' 5000
                           else readyLaunch ''ins-2'' ''10.0.0.2'' 10000),
       scaleUpLaunch = readyLaunch ''ins-3'' ''10.0.0.3'' 15000, protectTime = 20000 \<rparr>"

text \<open>Two tracked VMs: \<open>ins-a\<close> is protected, \<open>ins-b\<close> has failed one probe.\<close>

definition vmB :: vm where
  "vmB = \<lparr> ip = ''10.0.0.2'', matchCount = 1, unreachableCount = 1, launchedAt = 0, lastSeen = 0 \<rparr>"

definition poolAB :: state where
  "poolAB =
     initialState\<lparr>vmPool := [(''ins-a'', vmA), (''ins-b'', vmB)], protectedVM := Some ''ins-a''\<rparr>"

text \<open>Ten minutes after the launch every worker reports no active match.\<close>

definition idleWorkers :: "string \<Rightarrow> probe" where
  "idleWorkers i = ProbeData (JNumber 0)"

definition tenMinutes :: "string \<Rightarrow> int" where
  "tenMinutes i = 600000"

text \<open>A well-formed request, and a worker that refuses to start a match.\<close>

definition validRequest :: request where
  "validRequest =
     \<lparr> body_matchId = Some ''m1'', body_gameMode = Some ''VersusMen_Online'',
       body_tickRate = None, body_matchType = None \<rparr>"

definition workerDown :: request_env where
  "workerDown =
     \<lparr> allocEnv = healthy, startMatch = (\<lambda>a p. StartFailed), meanwhile = [], startTime = 2000 \<rparr>"

text \<open>
  A second request for the same match id, with \<open>ins-a\<close> busier than \<open>ins-b\<close>, and the
  records the two requests store; a state that holds the first record; a request for
  another match id.
\<close>

definition retryEnv :: request_env where
  "retryEnv =
     \<lparr> allocEnv =
         \<lparr> probeOf = (\<lambda>i. if i = ''ins-a'' then ProbeData (JNumber 3) else ProbeData (JNumber 0)),
           probeTime = (\<lambda>i. 8000), arrival = [Answered ''ins-b'', Answered ''ins-a''],
           launchEnv = neverReady \<rparr>,
       startMatch = (\<lambda>a p. StartOk 7002 ''c2''), meanwhile = [], startTime = 9000 \<rparr>"

definition firstMatch :: match_record where
  "firstMatch =
     \<lparr> serverIP = ''10.0.0.1'', serverPort = 7001, matchId = ''m1'',
       gameMode = ''VersusMen_Online'', tickRate = 30, containerId = ''c1'',
       startedAt = 2000, vmInstanceId = ''ins-a'' \<rparr>"

definition secondMatch :: match_record where
  "secondMatch =
     \<lparr> serverIP = ''10.0.0.2'', serverPort = 7002, matchId = ''m1'',
       gameMode = ''VersusMen_Online'', tickRate = 30, containerId = ''c2'',
       startedAt = 9000, vmInstanceId = ''ins-b'' \<rparr>"

definition poolWithMatch :: state where
  "poolWithMatch = poolA\<lparr>matches := [(''m1'', firstMatch)]\<rparr>"

definition otherRequest :: request where
  "otherRequest =
     \<lparr> body_matchId = Some ''m2'', body_gameMode = Some ''KunBoran_Online'',
       body_tickRate = Some 60, body_matchType = Some ''Ranked'' \<rparr>"

text \<open>
  Every probe fails ten minutes after the launch; and the pool of two with \<open>ins-b\<close>
  protected.
\<close>

definition lateFail :: alloc_env where
  "lateFail =
     \<lparr> probeOf = (\<lambda>i. ProbeFailed), probeTime = (\<lambda>i. 600000),
       arrival = [Answered ''ins-a'', Answered ''ins-b'', TerminateReturned ''ins-b''],
       launchEnv = neverReady \<rparr>"

definition poolBA :: state where
  "poolBA = poolAB\<lparr>protectedVM := Some ''ins-b''\<rparr>"





text \<open>
  A pool of three for a floor of two, \<open>ins-a\<close> protected and the two others one failed
  probe away from the threshold. Every probe fails ten minutes after the launch: in
  \<open>burst\<close> the three answers arrive before any \<^verbatim>\<open>TerminateInstances\<close> call returns, in
  \<open>staggered\<close> the call made for \<open>ins-b\<close> returns before the probe of \<open>ins-c\<close> answers.
\<close>

definition vmC :: vm where
  "vmC = \<lparr> ip = ''10.0.0.3'', matchCount = 1, unreachableCount = 1, launchedAt = 0, lastSeen = 0 \<rparr>"

definition poolABC :: state where
  "poolABC =
     initialState\<lparr>vmPool := [(''ins-a'', vmA), (''ins-b'', vmB), (''ins-c'', vmC)],
                  protectedVM := Some ''ins-a''\<rparr>"

definition burst :: alloc_env where
  "burst =
     \<lparr> probeOf = (\<lambda>i. ProbeFailed), probeTime = (\<lambda>i. 600000),
       arrival = [Answered ''ins-a'', Answered ''ins-b'', Answered ''ins-c'',
                  TerminateReturned ''ins-b'', TerminateReturned ''ins-c''],
       launchEnv = neverReady \<rparr>"

definition staggered :: alloc_env where
  "staggered =
     \<lparr> probeOf = (\<lambda>i. ProbeFailed), probeTime = (\<lambda>i. 600000),
       arrival = [Answered ''ins-a'', Answered ''ins-b'', TerminateReturned ''ins-b'',
                  Answered ''ins-c''],
       launchEnv = neverReady \<rparr>"

section \<open>The probe update\<close>

lemma map_of_writeBack:
  "map_of (writeBack i v pool) = (if map_of pool i = None then map_of pool else (map_of pool)(i \<mapsto> v))"
  by (auto simp add: writeBack_def map_of_map_entry fun_eq_iff split: option.splits)

text \<open>
  C7, as the code has it. After a successful status probe the stored \<^verbatim>\<open>matchCount\<close>
  is a non-negative number: a value of \<^verbatim>\<open>activeMatches\<close> that is not a finite number
  becomes 0, a negative number becomes 0, and a non-negative finite number is stored as
  it is. No step rounds it, so the stored count is an integer exactly when the reported
  number is an integer or is replaced by 0. The record under the instance id in
  \<^verbatim>\<open>vmPool\<close> is the updated one.
\<close>

theorem refreshVmStatus_matchCount_nonneg:
  assumes "refreshVmStatus cfg (ProbeData a) now i v st = (ok, v', st')"
  shows "ok \<and> 0 \<le> matchCount v'
    \<and> matchCount v' = (if isFinite a \<and> 0 \<le> numberValue a then numberValue a else 0)
    \<and> (matchCount v' \<in> \<int>) = (numberValue a \<in> \<int> \<or> numberValue a < 0)
    \<and> (map_of (vmPool st) i \<noteq> None \<longrightarrow> map_of (vmPool st') i = Some v')"
proof -
  from assms have ok: "ok" and v': "v' = (if isFinite a \<and> 0 \<le> numberValue a
        then v\<lparr>matchCount := numberValue a, unreachableCount := 0, lastSeen := now\<rparr>
        else v\<lparr>matchCount := 0, unreachableCount := 0, lastSeen := now\<rparr>)"
    and pool: "vmPool st' = writeBack i v' (vmPool st)"
    by (auto simp add: refreshVmStatus_def Let_def split: if_splits)
  have fin: "\<not> isFinite a \<Longrightarrow> numberValue a = 0"
    by (cases a) simp_all
  from v' have eq: "matchCount v' = (if isFinite a \<and> 0 \<le> numberValue a then numberValue a else 0)"
    by simp
  from eq have nonneg: "0 \<le> matchCount v'"
    by simp
  from eq fin have ints: "(matchCount v' \<in> \<int>) = (numberValue a \<in> \<int> \<or> numberValue a < 0)"
    by (cases "isFinite a") auto
  from pool have stored: "map_of (vmPool st) i \<noteq> None \<longrightarrow> map_of (vmPool st') i = Some v'"
    by (simp add: map_of_writeBack)
  from ok nonneg eq ints stored show ?thesis
    by blast
qed

theorem refreshVmStatus_matchCount_nonneg_witness:
  "refreshVmStatus defaultConfig (ProbeData (JNumber (- 3))) 1000 ''ins-a'' vmA poolA
     = (True, vmA\<lparr>lastSeen := 1000\<rparr>, poolA\<lparr>vmPool := [(''ins-a'', vmA\<lparr>lastSeen := 1000\<rparr>)]\<rparr>)
   \<and> 0 \<le> matchCount (vmA\<lparr>lastSeen := 1000\<rparr>)
   \<and> matchCount (vmA\<lparr>lastSeen := 1000\<rparr>) \<in> \<int>
   \<and> map_of (vmPool (poolA\<lparr>vmPool := [(''ins-a'', vmA\<lparr>lastSeen := 1000\<rparr>)]\<rparr>)) ''ins-a''
       = Some (vmA\<lparr>lastSeen := 1000\<rparr>)"
proof -
  have run: "refreshVmStatus defaultConfig (ProbeData (JNumber (- 3))) 1000 ''ins-a'' vmA poolA
     = (True, vmA\<lparr>lastSeen := 1000\<rparr>, poolA\<lparr>vmPool := [(''ins-a'', vmA\<lparr>lastSeen := 1000\<rparr>)]\<rparr>)"
    by (simp add: refreshVmStatus_def writeBack_def vmA_def poolA_def initialState_def Let_def)
  from refreshVmStatus_matchCount_nonneg [OF run] run show ?thesis
    by (simp add: poolA_def)
qed

text \<open>
  C7 as the specification words it fails: a worker that reports the finite number 5/2
  leaves a \<^verbatim>\<open>matchCount\<close> in the pool that is not an integer.
\<close>

theorem refreshVmStatus_fraction_counterexample:
  "map_option matchCount
     (map_of (vmPool (snd (snd (refreshVmStatus defaultConfig (ProbeData (JNumber (5 / 2))) 1000
                                   ''ins-a'' vmA poolA)))) ''ins-a'') = Some (5 / 2)
   \<and> (5 / 2 :: rat) \<notin> \<int>"
  by (simp add: refreshVmStatus_def writeBack_def vmA_def poolA_def initialState_def Let_def)

section \<open>The paths of a probe\<close>

lemma map_fst_writeBack: "map fst (writeBack i v pool) = map fst pool"
  unfolding writeBack_def by (induction pool) auto

lemma length_writeBack: "length (writeBack i v pool) = length pool"
  unfolding writeBack_def by (induction pool) auto

text \<open>The two outcomes of a probe, each with the state it leaves.\<close>

lemma refreshVmStatus_failed:
  "refreshVmStatus cfg ProbeFailed now i v st =
     (False, v\<lparr>unreachableCount := unreachableCount v + 1\<rparr>,
      if VM_UNREACHABLE_TERMINATE_THRESHOLD cfg \<le> unreachableCount v + 1
         \<and> mayTerminate cfg now i v st
      then terminated i (v\<lparr>unreachableCount := unreachableCount v + 1\<rparr>) st
      else st\<lparr>vmPool := writeBack i (v\<lparr>unreachableCount := unreachableCount v + 1\<rparr>) (vmPool st)\<rparr>)"
  by (simp add: refreshVmStatus_def Let_def mayTerminate_def terminated_def ageMinutes_def
      length_writeBack)

lemma refreshVmStatus_data:
  "refreshVmStatus cfg (ProbeData a) now i v st =
     (True, probed a now v, st\<lparr>vmPool := writeBack i (probed a now v) (vmPool st)\<rparr>)"
  by (cases v) (simp add: refreshVmStatus_def Let_def probed_def)

text \<open>The piece of a probe handler that runs when the answer arrives.\<close>

lemma probeAnswered_failed:
  "probeAnswered cfg ProbeFailed now i v st =
     (if VM_UNREACHABLE_TERMINATE_THRESHOLD cfg \<le> unreachableCount v + 1
         \<and> mayTerminate cfg now i v st
      then (True,
            st\<lparr>vmPool := writeBack i (v\<lparr>unreachableCount := unreachableCount v + 1\<rparr>) (vmPool st),
               cloudLog := cloudLog st @ [TerminateInstances i]\<rparr>)
      else (False,
            st\<lparr>vmPool := writeBack i (v\<lparr>unreachableCount := unreachableCount v + 1\<rparr>) (vmPool st)\<rparr>))"
  by (simp add: probeAnswered_def Let_def mayTerminate_def ageMinutes_def length_writeBack)

lemma probeAnswered_data:
  "probeAnswered cfg (ProbeData a) now i v st =
     (False, st\<lparr>vmPool := writeBack i (probed a now v) (vmPool st)\<rparr>)"
  by (simp add: probeAnswered_def refreshVmStatus_data)

text \<open>
  A call of \<^verbatim>\<open>refreshVmStatus\<close> that nothing interrupts is the first piece followed at
  once by the \<^verbatim>\<open>delete\<close>.
\<close>

lemma refreshVmStatus_two_pieces:
  "snd (snd (refreshVmStatus cfg pr now i v st)) =
     (case probeAnswered cfg pr now i v st of
        (terminating, s) \<Rightarrow> if terminating then s\<lparr>vmPool := AList.delete i (vmPool s)\<rparr> else s)"
  by (cases pr)
     (simp_all add: refreshVmStatus_failed refreshVmStatus_data probeAnswered_failed
        probeAnswered_data terminated_def)

section \<open>What one call of launchBackupVM does\<close>

lemma length_update_le: "length (AList.update k v al) \<le> Suc (length al)"
  by (induction al) auto

text \<open>The paths of \<^verbatim>\<open>launchBackupVM\<close>, each with the state it leaves.\<close>

lemma launchBackupVM_eq:
  "launchBackupVM cfg e st =
     (if launching st \<or> MAX_BACKUP_VMS cfg \<le> int (length (vmPool st)) then (None, st)
      else
        (case runResult e of
           None \<Rightarrow> (None, st\<lparr>cloudLog := cloudLog st @ [RunInstances]\<rparr>)
         | Some i \<Rightarrow>
             if i = [] then (None, st\<lparr>cloudLog := cloudLog st @ [RunInstances]\<rparr>)
             else
               (case pollLoop (polls e) 0 maxPoll of
                  None \<Rightarrow>
                    (None, st\<lparr>cloudLog := cloudLog st @ [RunInstances, TerminateInstances i],
                             vmPool := AList.delete i (vmPool st),
                             protectedVM := protectIfNone i st\<rparr>)
                | Some a \<Rightarrow>
                    if a = [] then
                      (None, st\<lparr>cloudLog := cloudLog st @ [RunInstances, TerminateInstances i],
                               vmPool := AList.delete i (vmPool st),
                               protectedVM := protectIfNone i st\<rparr>)
                    else
                      (Some (i, a),
                       st\<lparr>cloudLog := cloudLog st @ [RunInstances],
                          vmPool := AList.update i (newVm a (readyTime e)) (vmPool st),
                          protectedVM := protectIfNone i st\<rparr>))))"
  by (simp add: launchBackupVM_def Let_def protectIfNone_def AList.delete_update_same
      split: option.splits)

lemma pollLoop_first:
  "ps 0 = PollAnswer (Some inst) \<Longrightarrow> InstanceState inst = ''RUNNING'' \<Longrightarrow>
   PublicIpAddresses inst = a # as \<Longrightarrow> pollLoop ps 0 maxPoll = Some a"
  by (simp add: maxPoll_def numeral_eq_Suc)

lemma launchBackupVM_length:
  "length (vmPool (snd (launchBackupVM cfg e st))) \<le> Suc (length (vmPool st))"
  by (simp add: launchBackupVM_eq length_update_le le_SucI AList.length_delete_le
      split: option.splits)

lemma launchBackupVM_launchCount:
  "launchCount (snd (launchBackupVM cfg e st)) \<le> Suc (launchCount st)"
  by (simp add: launchBackupVM_eq launchCount_def split: option.splits)



text \<open>A launch that succeeds tracks the new VM, and protects it when none was protected.\<close>

lemma launchBackupVM_success:
  assumes "launchBackupVM cfg e st = (Some (i, a), st')"
  shows "map_of (vmPool st') i = Some (newVm a (readyTime e)) \<and> protectedVM st' = protectIfNone i st
    \<and> a \<noteq> [] \<and> pollLoop (polls e) 0 maxPoll = Some a"
  using assms
  by (auto simp add: launchBackupVM_eq AList.update_conv' split: if_splits option.splits)

section \<open>The protected VM after a launch that times out\<close>

lemma pollLoop_no_answer: "(\<And>j. ps j = PollAnswer None) \<Longrightarrow> pollLoop ps i k = None"
  by (induction k arbitrary: i) auto

text \<open>
  C1 at a failing input. The pool is empty and no VM is protected; \<^verbatim>\<open>RunInstances\<close>
  returns the id \<open>ins-new\<close> and none of the 40 polls sees the instance running.
  Line 176 runs before the test of line 181, so \<^verbatim>\<open>launchBackupVM\<close> returns null on
  the timeout path and leaves \<^verbatim>\<open>protectedVM\<close> naming \<open>ins-new\<close>, which is not a
  key of \<^verbatim>\<open>vmPool\<close>.
\<close>

theorem launchBackupVM_timeout_protects_absent_vm:
  "launchBackupVM defaultConfig neverReady initialState =
     (None, initialState\<lparr>protectedVM := Some ''ins-new'',
                         cloudLog := [RunInstances, TerminateInstances ''ins-new'']\<rparr>)
   \<and> map_of (vmPool (snd (launchBackupVM defaultConfig neverReady initialState))) ''ins-new'' = None"
  by (simp add: launchBackupVM_def defaultConfig_def neverReady_def initialState_def
      pollLoop_no_answer Let_def)

section \<open>The candidates of getAvailableVM\<close>

text \<open>
  C2 at a failing input. The only VM does not answer its probe; it is one second old, so
  it stays in the pool with \<^verbatim>\<open>unreachableCount\<close> 1. The filter of line 247 looks at
  \<^verbatim>\<open>matchCount\<close> only, so this unreachable VM is the candidate that is returned, and
  no launch is attempted.
\<close>

theorem getAvailableVM_returns_unreachable_vm:
  "getAvailableVM defaultConfig allFail poolA =
     (Some (''ins-a'', ''10.0.0.1''), poolA\<lparr>vmPool := [(''ins-a'', vmA\<lparr>unreachableCount := 1\<rparr>)]\<rparr>)"
  by (simp add: getAvailableVM_def candidates_def refreshAll_def settle_def refreshEvent_def
      probeAnswered_failed mayTerminate_def writeBack_def ageMinutes_def defaultConfig_def
      allFail_def poolA_def vmA_def initialState_def Let_def)

text \<open>
  What the selection does do: the first candidate is an entry of the pool below
  \<^verbatim>\<open>FULL_MATCH_LIMIT\<close> that is least in \<^verbatim>\<open>(matchCount, lastSeen)\<close> among such
  entries; it is returned when there is one, and only an empty list leads to a launch.
\<close>

lemma candidates_head_least:
  assumes "candidates cfg st = (i, v) # cs"
  shows "(i, v) \<in> set (vmPool st) \<and> matchCount v < of_int (FULL_MATCH_LIMIT cfg)
    \<and> (\<forall>(j, w) \<in> set (vmPool st). matchCount w < of_int (FULL_MATCH_LIMIT cfg) \<longrightarrow>
          (matchCount v, lastSeen v) \<le> (matchCount w, lastSeen w))"
proof -
  let ?f = "\<lambda>(instanceId, v). (matchCount v, lastSeen v)"
  let ?xs = "filter (\<lambda>(instanceId, v). matchCount v < of_int (FULL_MATCH_LIMIT cfg)) (vmPool st)"
  have s: "sorted (map ?f (sort_key ?f ?xs))"
    by (rule sorted_sort_key)
  from assms have c: "sort_key ?f ?xs = (i, v) # cs"
    by (simp add: candidates_def)
  have "set (sort_key ?f ?xs) = set ?xs"
    by simp
  with c have mem: "set ?xs = insert (i, v) (set cs)"
    by simp
  from s c have least: "\<forall>y \<in> set cs. ?f (i, v) \<le> ?f y"
    by simp
  from mem have "(i, v) \<in> set ?xs" by simp
  then have in_pool: "(i, v) \<in> set (vmPool st)" "matchCount v < of_int (FULL_MATCH_LIMIT cfg)"
    by simp_all
  have "(matchCount v, lastSeen v) \<le> (matchCount w, lastSeen w)"
    if "(j, w) \<in> set (vmPool st)" "matchCount w < of_int (FULL_MATCH_LIMIT cfg)" for j w
  proof -
    from that have "(j, w) \<in> set ?xs" by simp
    with mem have "(j, w) = (i, v) \<or> (j, w) \<in> set cs" by simp
    with least show ?thesis by auto
  qed
  with in_pool show ?thesis by blast
qed

lemma getAvailableVM_candidate:
  assumes "candidates cfg (refreshAll cfg (probeOf env) (probeTime env) (arrival env) (vmPool st) st)
             = (i, v) # cs"
  shows "getAvailableVM cfg env st =
     (Some (i, ip v),
      refreshAll cfg (probeOf env) (probeTime env) (arrival env) (vmPool st) st)"
  using assms by (simp add: getAvailableVM_def Let_def)

lemma getAvailableVM_launch:
  assumes "candidates cfg (refreshAll cfg (probeOf env) (probeTime env) (arrival env) (vmPool st) st)
             = []"
  shows "getAvailableVM cfg env st =
     launchBackupVM cfg (launchEnv env)
       (refreshAll cfg (probeOf env) (probeTime env) (arrival env) (vmPool st) st)"
  using assms by (simp add: getAvailableVM_def Let_def)

section \<open>Validation of a match request\<close>

text \<open>
  Requests that line 390 rejects: a missing or empty \<^verbatim>\<open>matchId\<close> or \<^verbatim>\<open>gameMode\<close>,
  or a \<^verbatim>\<open>gameMode\<close> that is neither a key of \<^verbatim>\<open>SCENE_MAP\<close> nor a property name of
  \<^verbatim>\<open>Object.prototype\<close>. The answer is 400 and the state is the one before.
\<close>

lemma handleMatchRequest_rejects:
  assumes "falsy (body_matchId req) \<or> falsy (body_gameMode req)
           \<or> (\<exists>g. body_gameMode req = Some g \<and> g \<notin> fst ` set SCENE_MAP
                    \<and> g \<notin> set objectPrototypeKeys)"
  shows "handleMatchRequest cfg matchPrivacy req env st = (Status 400, st)"
proof (cases "body_matchId req")
  case None
  then show ?thesis by (simp add: handleMatchRequest_def)
next
  case (Some mid)
  note mid = this
  show ?thesis
  proof (cases "body_gameMode req")
    case None
    with mid show ?thesis by (simp add: handleMatchRequest_def)
  next
    case (Some gm)
    from assms mid Some have "mid = [] \<or> gm = [] \<or> \<not> sceneTruthy gm"
      by (force simp add: sceneTruthy_def split: option.splits dest!: map_of_SomeD)
    with mid Some show ?thesis by (auto simp add: handleMatchRequest_def)
  qed
qed

text \<open>
  C9 at a failing input. \<open>constructor\<close> is not a key of the scene mapping, yet
  \<^verbatim>\<open>SCENE_MAP['constructor']\<close> is the inherited \<^verbatim>\<open>Object\<close> function, which is
  truthy, so line 390 lets the request through. The VM is probed and its record
  rewritten; when the worker refuses the match the answer is 500, and when the worker
  starts it the match is recorded and the answer is 200. The answer is never 400.
\<close>

theorem handleMatchRequest_accepts_inherited_key:
  "''constructor'' \<notin> fst ` set SCENE_MAP
   \<and> handleMatchRequest defaultConfig ''Public'' inheritedRequest workerDown poolA =
     (Status 500, poolA\<lparr> vmPool := [(''ins-a'', vmA\<lparr>matchCount := 2, lastSeen := 1000\<rparr>)]\<rparr>)
   \<and> handleMatchRequest defaultConfig ''Public'' inheritedRequest workerOk poolA =
     (Json \<lparr> serverIP = ''10.0.0.1'', serverPort = 7001, matchId = ''m2'',
             gameMode = ''constructor'', tickRate = 30, containerId = ''c1'' \<rparr>,
      poolA\<lparr> vmPool := [(''ins-a'', vmA\<lparr>matchCount := 3, lastSeen := 1000\<rparr>)],
             matches :=
               [(''m2'', \<lparr> serverIP = ''10.0.0.1'', serverPort = 7001, matchId = ''m2'',
                          gameMode = ''constructor'', tickRate = 30, containerId = ''c1'',
                          startedAt = 2000, vmInstanceId = ''ins-a'' \<rparr>)]\<rparr>)"
  by (simp add: handleMatchRequest_def completeMatchRequest_def sceneTruthy_def SCENE_MAP_def
      objectPrototypeKeys_def getAvailableVM_def candidates_def refreshAll_def settle_def
      refreshEvent_def probeAnswered_data probed_def writeBack_def
      launchUnityServerOnVM_def requestTickRate_def payloadMatchType_def defaultConfig_def
      workerOk_def workerDown_def healthy_def inheritedRequest_def poolA_def vmA_def
      initialState_def Let_def match_data.extend_def)

section \<open>The minimum-pool top-up\<close>

lemma launchMany_launchCount:
  "launchCount (launchMany cfg envs i k st) \<le> launchCount st + k"
proof (induction k arbitrary: i st)
  case 0
  show ?case by simp
next
  case (Suc k)
  have "launchCount (launchMany cfg envs (Suc i) k (snd (launchBackupVM cfg (envs i) st)))
        \<le> launchCount (snd (launchBackupVM cfg (envs i) st)) + k"
    by (rule Suc.IH)
  with launchBackupVM_launchCount [of cfg "envs i" st] show ?case by simp
qed

lemma launchMany_length:
  "length (vmPool (launchMany cfg envs i k st)) \<le> length (vmPool st) + k"
proof (induction k arbitrary: i st)
  case 0
  show ?case by simp
next
  case (Suc k)
  have "length (vmPool (launchMany cfg envs (Suc i) k (snd (launchBackupVM cfg (envs i) st))))
        \<le> length (vmPool (snd (launchBackupVM cfg (envs i) st))) + k"
    by (rule Suc.IH)
  with launchBackupVM_length [of cfg "envs i" st] show ?case by simp
qed

lemma length_update_fresh:
  "k \<notin> fst ` set al \<Longrightarrow> length (AList.update k v al) = Suc (length al)"
  by (induction al) auto

lemma launchMany_launching: "launching st \<Longrightarrow> launchMany cfg envs i k st = st"
  by (induction k arbitrary: i) (simp_all add: launchBackupVM_def)

text \<open>A launch that succeeds with a new id adds one entry and makes one cloud call.\<close>

lemma launchBackupVM_succeeds:
  assumes "\<not> launching st" and "int (length (vmPool st)) < MAX_BACKUP_VMS cfg"
    and "launchSucceeds e i" and "i \<notin> fst ` set (vmPool st)"
  shows "\<not> launching (snd (launchBackupVM cfg e st))
    \<and> length (vmPool (snd (launchBackupVM cfg e st))) = Suc (length (vmPool st))
    \<and> launchCount (snd (launchBackupVM cfg e st)) = Suc (launchCount st)
    \<and> fst ` set (vmPool (snd (launchBackupVM cfg e st))) = insert i (fst ` set (vmPool st))"
  using assms
  by (auto simp add: launchBackupVM_eq launchSucceeds_def launchCount_def length_update_fresh
      AList.dom_update split: option.splits)

lemma launchMany_succeeds:
  assumes "\<not> launching st"
    and "int (length (vmPool st)) + int k \<le> MAX_BACKUP_VMS cfg"
    and "\<forall>n. i \<le> n \<and> n < i + k \<longrightarrow> launchSucceeds (envs n) (ids n)"
    and "inj_on ids {i..<i + k}"
    and "\<forall>n. i \<le> n \<and> n < i + k \<longrightarrow> ids n \<notin> fst ` set (vmPool st)"
  shows "\<not> launching (launchMany cfg envs i k st)
    \<and> length (vmPool (launchMany cfg envs i k st)) = length (vmPool st) + k
    \<and> launchCount (launchMany cfg envs i k st) = launchCount st + k
    \<and> fst ` set (vmPool (launchMany cfg envs i k st))
        = fst ` set (vmPool st) \<union> ids ` {i..<i + k}"
  using assms
proof (induction k arbitrary: i st)
  case 0
  then show ?case by simp
next
  case (Suc k)
  let ?s = "snd (launchBackupVM cfg (envs i) st)"
  from Suc.prems have one: "\<not> launching ?s"
      "length (vmPool ?s) = Suc (length (vmPool st))"
      "launchCount ?s = Suc (launchCount st)"
      "fst ` set (vmPool ?s) = insert (ids i) (fst ` set (vmPool st))"
    using launchBackupVM_succeeds [of st cfg "envs i" "ids i"] by simp_all
  from Suc.prems(4) have inj: "inj_on ids {Suc i..<Suc i + k}"
    by (rule inj_on_subset) auto
  have others: "ids n \<noteq> ids i" if "Suc i \<le> n" "n < Suc i + k" for n
  proof
    assume "ids n = ids i"
    with Suc.prems(4) that have "n = i"
      by (auto simp add: inj_on_def)
    with that show False by simp
  qed
  from one Suc.prems others
  have rest: "\<not> launching (launchMany cfg envs (Suc i) k ?s)
    \<and> length (vmPool (launchMany cfg envs (Suc i) k ?s)) = length (vmPool ?s) + k
    \<and> launchCount (launchMany cfg envs (Suc i) k ?s) = launchCount ?s + k
    \<and> fst ` set (vmPool (launchMany cfg envs (Suc i) k ?s))
        = fst ` set (vmPool ?s) \<union> ids ` {Suc i..<Suc i + k}"
    by (intro Suc.IH inj) auto
  have range: "{i..<i + Suc k} = insert i {Suc i..<Suc i + k}"
    by auto
  from rest one range show ?case
    by simp
qed

text \<open>
  C3, as the code has it. The top-up phase of one tick is \<^verbatim>\<open>diff\<close> awaited calls of
  \<^verbatim>\<open>launchBackupVM\<close> one after the other, where \<^verbatim>\<open>diff\<close> is \<^verbatim>\<open>MIN_BACKUP_VMS\<close> minus
  the pool size. So in one tick it makes at most \<^verbatim>\<open>diff\<close> launches and adds at most
  \<^verbatim>\<open>diff\<close> VMs. It makes none when a launch is already in flight. It makes exactly
  \<^verbatim>\<open>diff\<close> launches and adds exactly \<^verbatim>\<open>diff\<close> VMs, within the one tick, when no launch
  is in flight, \<^verbatim>\<open>MIN_BACKUP_VMS\<close> is at most \<^verbatim>\<open>MAX_BACKUP_VMS\<close>, and every launch
  succeeds with an instance id that is new.
\<close>

theorem topUp_launches_the_deficit:
  "topUp cfg envs st = launchMany cfg envs 0 (deficit cfg st) st
   \<and> launchCount (topUp cfg envs st) \<le> launchCount st + deficit cfg st
   \<and> length (vmPool (topUp cfg envs st)) \<le> length (vmPool st) + deficit cfg st
   \<and> (launching st \<longrightarrow> topUp cfg envs st = st)
   \<and> (\<not> launching st \<and> MIN_BACKUP_VMS cfg \<le> MAX_BACKUP_VMS cfg
        \<and> (\<forall>n < deficit cfg st.
              launchSucceeds (envs n) (ids n) \<and> ids n \<notin> fst ` set (vmPool st))
        \<and> inj_on ids {0..<deficit cfg st}
      \<longrightarrow> launchCount (topUp cfg envs st) = launchCount st + deficit cfg st
          \<and> length (vmPool (topUp cfg envs st)) = length (vmPool st) + deficit cfg st
          \<and> fst ` set (vmPool (topUp cfg envs st))
              = fst ` set (vmPool st) \<union> ids ` {0..<deficit cfg st})"
proof -
  have loop: "topUp cfg envs st = launchMany cfg envs 0 (deficit cfg st) st"
    by (simp add: topUp_def deficit_def Let_def)
  have upper: "launchCount (topUp cfg envs st) \<le> launchCount st + deficit cfg st"
      "length (vmPool (topUp cfg envs st)) \<le> length (vmPool st) + deficit cfg st"
    unfolding loop by (rule launchMany_launchCount, rule launchMany_length)
  have busy: "topUp cfg envs st = st" if "launching st"
    unfolding loop using that by (rule launchMany_launching)
  have exact: "launchCount (topUp cfg envs st) = launchCount st + deficit cfg st
          \<and> length (vmPool (topUp cfg envs st)) = length (vmPool st) + deficit cfg st
          \<and> fst ` set (vmPool (topUp cfg envs st))
              = fst ` set (vmPool st) \<union> ids ` {0..<deficit cfg st}"
    if free: "\<not> launching st" and order: "MIN_BACKUP_VMS cfg \<le> MAX_BACKUP_VMS cfg"
      and good: "\<forall>n < deficit cfg st.
              launchSucceeds (envs n) (ids n) \<and> ids n \<notin> fst ` set (vmPool st)"
      and inj: "inj_on ids {0..<deficit cfg st}"
  proof (cases "deficit cfg st = 0")
    case True
    then show ?thesis unfolding loop by simp
  next
    case False
    with order have room: "int (length (vmPool st)) + int (deficit cfg st) \<le> MAX_BACKUP_VMS cfg"
      by (simp add: deficit_def)
    from launchMany_succeeds [of st "deficit cfg st" cfg 0 envs ids] free room good inj
    show ?thesis unfolding loop by simp
  qed
  from loop upper busy exact show ?thesis
    by blast
qed

lemma readyLaunch_succeeds:
  "i \<noteq> [] \<Longrightarrow> a \<noteq> [] \<Longrightarrow> launchSucceeds (readyLaunch i a t) i"
  by (simp add: launchSucceeds_def readyLaunch_def pollLoop_first)

theorem topUp_launches_the_deficit_witness:
  "deficit threeWarm initialState = 3
   \<and> launchCount (topUp threeWarm warmLaunches initialState) = 3
   \<and> length (vmPool (topUp threeWarm warmLaunches initialState)) = 3
   \<and> fst ` set (vmPool (topUp threeWarm warmLaunches initialState)) = newId ` {0..<3}
   \<and> topUp threeWarm warmLaunches (initialState\<lparr>launching := True\<rparr>)
       = initialState\<lparr>launching := True\<rparr>"
proof -
  have d: "deficit threeWarm initialState = 3"
    by (simp add: deficit_def threeWarm_def defaultConfig_def initialState_def)
  have free: "\<not> launching initialState"
    and order: "MIN_BACKUP_VMS threeWarm \<le> MAX_BACKUP_VMS threeWarm"
    and busy: "launching (initialState\<lparr>launching := True\<rparr>)"
    by (simp_all add: threeWarm_def defaultConfig_def initialState_def)
  have good: "\<forall>n < deficit threeWarm initialState.
      launchSucceeds (warmLaunches n) (newId n) \<and> newId n \<notin> fst ` set (vmPool initialState)"
    by (simp add: warmLaunches_def readyLaunch_succeeds newId_def initialState_def)
  have "inj newId"
    by (simp add: inj_def newId_def)
  then have inj: "inj_on newId {0..<deficit threeWarm initialState}"
    by (rule inj_on_subset) simp
  from topUp_launches_the_deficit [of threeWarm warmLaunches initialState newId]
    free order good inj
  have exact: "launchCount (topUp threeWarm warmLaunches initialState)
        = launchCount initialState + deficit threeWarm initialState
      \<and> length (vmPool (topUp threeWarm warmLaunches initialState))
        = length (vmPool initialState) + deficit threeWarm initialState
      \<and> fst ` set (vmPool (topUp threeWarm warmLaunches initialState))
        = fst ` set (vmPool initialState) \<union> newId ` {0..<deficit threeWarm initialState}"
    by blast
  from topUp_launches_the_deficit [of threeWarm warmLaunches "initialState\<lparr>launching := True\<rparr>" newId]
    busy
  have idle: "topUp threeWarm warmLaunches (initialState\<lparr>launching := True\<rparr>)
       = initialState\<lparr>launching := True\<rparr>"
    by blast
  have start: "launchCount initialState = 0" "vmPool initialState = []"
    by (simp_all add: launchCount_def initialState_def)
  from exact idle d start show ?thesis
    by simp
qed

text \<open>
  C3 as the specification words it fails: with \<^verbatim>\<open>MIN_BACKUP_VMS\<close> = 2 and an empty
  cloud, the top-up phase of a single tick launches two VMs, both tracked when the
  phase ends.
\<close>

theorem topUp_two_launches_counterexample:
  "snd (beforeScaleUp twoWarm coldStart initialState) =
     initialState\<lparr>vmPool := [(''ins-1'', newVm ''10.0.0.1'' 5000),
                              (''ins-2'', newVm ''10.0.0.2'' 10000)],
                  protectedVM := Some ''ins-1'',
                  cloudLog := [RunInstances, RunInstances]\<rparr>
   \<and> launchCount (snd (beforeScaleUp twoWarm coldStart initialState))
       = launchCount initialState + 2"
  by (simp add: beforeScaleUp_def syncWithCloud_def cloudMap_def chooseOldest_def oldestFirst_def
      topUp_def launchBackupVM_eq protectIfNone_def pollLoop_first readyLaunch_def
      twoWarm_def defaultConfig_def coldStart_def initialState_def launchCount_def Let_def
      numeral_2_eq_2)

section \<open>The pool ceiling\<close>






section \<open>Terminations by the reconciler\<close>

lemma refreshVmStatus_step:
  assumes "refreshVmStatus cfg p now i v st = (ok, v', st')"
  shows "protectedVM st' = protectedVM st \<and> launchedAt v' = launchedAt v
    \<and> (ok \<longrightarrow> cloudLog st' = cloudLog st \<and> map fst (vmPool st') = map fst (vmPool st))
    \<and> ((cloudLog st' = cloudLog st \<and> map fst (vmPool st') = map fst (vmPool st))
        \<or> (cloudLog st' = cloudLog st @ [TerminateInstances i]
            \<and> map fst (vmPool st') = removeAll i (map fst (vmPool st))
            \<and> mayTerminate cfg now i v st))"
proof (cases p)
  case ProbeFailed
  with assms show ?thesis
    by (cases "VM_UNREACHABLE_TERMINATE_THRESHOLD cfg \<le> unreachableCount v + 1
         \<and> mayTerminate cfg now i v st")
       (auto simp add: refreshVmStatus_failed terminated_def map_fst_writeBack AList.delete_keys)
next
  case (ProbeData a)
  with assms show ?thesis
    by (auto simp add: refreshVmStatus_data probed_def map_fst_writeBack)
qed

lemma reconcileVm_failed:
  "reconcileVm cfg ProbeFailed now (i, v) (t, st) =
     (t, snd (snd (refreshVmStatus cfg ProbeFailed now i v st)))"
  by (simp add: reconcileVm_def refreshVmStatus_failed)

lemma reconcileVm_data:
  "reconcileVm cfg (ProbeData a) now (i, v) (t, st) =
     (t + max 0 (of_int (FULL_MATCH_LIMIT cfg) - matchCount (probed a now v)),
      if matchCount (probed a now v) = 0 \<and> mayTerminate cfg now i v st
      then terminated i (probed a now v) st
      else st\<lparr>vmPool := writeBack i (probed a now v) (vmPool st)\<rparr>)"
  by (auto simp add: reconcileVm_def refreshVmStatus_data Let_def mayTerminate_def terminated_def
      length_writeBack ageMinutes_def probed_def)

lemma reconcileVm_step:
  assumes "reconcileVm cfg p now (i, v) (t, st) = (t', st')"
  shows "protectedVM st' = protectedVM st
    \<and> ((cloudLog st' = cloudLog st \<and> map fst (vmPool st') = map fst (vmPool st))
        \<or> (cloudLog st' = cloudLog st @ [TerminateInstances i]
            \<and> map fst (vmPool st') = removeAll i (map fst (vmPool st))
            \<and> mayTerminate cfg now i v st))"
proof (cases p)
  case ProbeFailed
  obtain ok v1 st1 where r: "refreshVmStatus cfg ProbeFailed now i v st = (ok, v1, st1)"
    by (cases "refreshVmStatus cfg ProbeFailed now i v st") auto
  with assms ProbeFailed have "st' = st1"
    by (simp add: reconcileVm_failed)
  with refreshVmStatus_step [OF r] show ?thesis by blast
next
  case (ProbeData a)
  with assms show ?thesis
    by (cases "matchCount (probed a now v) = 0 \<and> mayTerminate cfg now i v st")
       (auto simp add: reconcileVm_data terminated_def map_fst_writeBack AList.delete_keys)
qed

lemma reconcileAll_append:
  "reconcileAll cfg pr tm (xs @ ys) acc = reconcileAll cfg pr tm ys (reconcileAll cfg pr tm xs acc)"
  by (induction xs arbitrary: acc) auto

text \<open>
  C4. Take any iteration of the loop of lines 331-361, for the entry \<open>(i, v)\<close>, and let
  \<open>st\<close> be the state in which the loop reaches it. The iteration holds both
  termination paths: the unreachable one inside \<^verbatim>\<open>refreshVmStatus\<close> and the idle one
  after it. Either it makes no cloud call and removes no key, or it terminates and
  removes \<open>i\<close>, and then in \<open>st\<close> the VM \<open>i\<close> is not the protected one, the pool holds
  more than \<^verbatim>\<open>MIN_BACKUP_VMS\<close> entries, and the VM's age is at least
  \<^verbatim>\<open>VM_AGE_TERMINATE_MINUTES\<close>. The protected VM is not changed by the iteration.
\<close>

theorem reconciler_terminates_only_under_guard:
  assumes "entries = pre @ (i, v) # post"
    and "reconcileAll cfg pr tm pre acc = (t, st)"
    and "reconcileVm cfg (pr i) (tm i) (i, v) (t, st) = (t', st')"
  shows "reconcileAll cfg pr tm entries acc = reconcileAll cfg pr tm post (t', st')
    \<and> protectedVM st' = protectedVM st
    \<and> ((cloudLog st' = cloudLog st \<and> map fst (vmPool st') = map fst (vmPool st))
        \<or> (cloudLog st' = cloudLog st @ [TerminateInstances i]
            \<and> map fst (vmPool st') = removeAll i (map fst (vmPool st))
            \<and> protectedVM st \<noteq> Some i
            \<and> MIN_BACKUP_VMS cfg < int (length (vmPool st))
            \<and> of_int (VM_AGE_TERMINATE_MINUTES cfg) \<le> ageMinutes (tm i) v))"
proof -
  from assms have "reconcileAll cfg pr tm entries acc = reconcileAll cfg pr tm post (t', st')"
    by (simp add: reconcileAll_append)
  with reconcileVm_step [OF assms(3)] show ?thesis
    by (auto simp add: mayTerminate_def)
qed

theorem reconciler_terminates_only_under_guard_witness:
  "reconcileAll defaultConfig idleWorkers tenMinutes [(''ins-a'', vmA)] (0, poolAB)
     = (5, poolAB\<lparr>vmPool := [(''ins-a'', probed (JNumber 0) 600000 vmA), (''ins-b'', vmB)]\<rparr>)
   \<and> reconcileVm defaultConfig (idleWorkers ''ins-b'') (tenMinutes ''ins-b'') (''ins-b'', vmB)
        (5, poolAB\<lparr>vmPool := [(''ins-a'', probed (JNumber 0) 600000 vmA), (''ins-b'', vmB)]\<rparr>)
     = (10, poolAB\<lparr>vmPool := [(''ins-a'', probed (JNumber 0) 600000 vmA)],
                   cloudLog := [TerminateInstances ''ins-b'']\<rparr>)
   \<and> reconcileAll defaultConfig idleWorkers tenMinutes (vmPool poolAB) (0, poolAB)
     = (10, poolAB\<lparr>vmPool := [(''ins-a'', probed (JNumber 0) 600000 vmA)],
                   cloudLog := [TerminateInstances ''ins-b'']\<rparr>)
   \<and> protectedVM poolAB \<noteq> Some ''ins-b''
   \<and> MIN_BACKUP_VMS defaultConfig < 2
   \<and> of_int (VM_AGE_TERMINATE_MINUTES defaultConfig) \<le> ageMinutes 600000 vmB"
proof -
  let ?mid = "poolAB\<lparr>vmPool := [(''ins-a'', probed (JNumber 0) 600000 vmA), (''ins-b'', vmB)]\<rparr>"
  let ?end = "poolAB\<lparr>vmPool := [(''ins-a'', probed (JNumber 0) 600000 vmA)],
                   cloudLog := [TerminateInstances ''ins-b'']\<rparr>"
  have split: "vmPool poolAB = [(''ins-a'', vmA)] @ (''ins-b'', vmB) # []"
    by (simp add: poolAB_def)
  have first: "reconcileAll defaultConfig idleWorkers tenMinutes [(''ins-a'', vmA)] (0, poolAB)
     = (5, ?mid)"
    by (simp add: reconcileVm_data mayTerminate_def probed_def writeBack_def idleWorkers_def
        tenMinutes_def defaultConfig_def poolAB_def vmA_def initialState_def)
  have second: "reconcileVm defaultConfig (idleWorkers ''ins-b'') (tenMinutes ''ins-b'')
      (''ins-b'', vmB) (5, ?mid) = (10, ?end)"
    by (simp add: reconcileVm_data mayTerminate_def terminated_def probed_def writeBack_def
        ageMinutes_def idleWorkers_def tenMinutes_def defaultConfig_def poolAB_def vmA_def
        vmB_def initialState_def)
  from reconciler_terminates_only_under_guard [OF split first second] first second
  show ?thesis
    by (simp add: poolAB_def initialState_def tenMinutes_def)
qed

section \<open>The optimistic increment of matchCount\<close>

lemma candidates_subset: "set (candidates cfg st) \<subseteq> set (vmPool st)"
  by (auto simp add: candidates_def)

lemma getAvailableVM_in_pool:
  assumes "getAvailableVM cfg env st = (Some (i, a), st1)"
  shows "map_of (vmPool st1) i \<noteq> None"
proof -
  let ?s = "refreshAll cfg (probeOf env) (probeTime env) (arrival env) (vmPool st) st"
  show ?thesis
  proof (cases "candidates cfg ?s")
    case Nil
    with assms have l: "launchBackupVM cfg (launchEnv env) ?s = (Some (i, a), st1)"
      by (simp add: getAvailableVM_def Let_def)
    then show ?thesis
      by (auto simp add: launchBackupVM_eq AList.update_conv' split: if_splits option.splits)
  next
    case (Cons c cs)
    obtain j v where c: "c = (j, v)" by (cases c)
    from assms Cons c have eq: "j = i" "st1 = ?s"
      by (simp_all add: getAvailableVM_def Let_def)
    from Cons c have "(j, v) \<in> set (candidates cfg ?s)"
      by simp
    with candidates_subset have "(j, v) \<in> set (vmPool ?s)"
      by blast
    with eq show ?thesis
      by (metis map_of_eq_None_iff fst_conv image_eqI)
  qed
qed










section \<open>Match records\<close>

lemma refreshVmStatus_matches:
  "matches (snd (snd (refreshVmStatus cfg p now i v st))) = matches st"
  by (cases p) (simp_all add: refreshVmStatus_failed refreshVmStatus_data terminated_def)

lemma probeAnswered_matches: "matches (snd (probeAnswered cfg p now i v st)) = matches st"
  by (cases p) (simp_all add: probeAnswered_failed probeAnswered_data)

lemma refreshEvent_matches:
  "matches (snd (snd (refreshEvent cfg pr tm ev c))) = matches (snd (snd c))"
proof (cases c)
  case (fields waiting pending st)
  show ?thesis
  proof (cases ev)
    case (Answered i)
    show ?thesis
    proof (cases "map_of waiting i")
      case None
      with fields Answered show ?thesis by (simp add: refreshEvent_def)
    next
      case (Some v)
      obtain t s where "probeAnswered cfg (pr i) (tm i) i v st = (t, s)"
        by (cases "probeAnswered cfg (pr i) (tm i) i v st") auto
      with probeAnswered_matches [of cfg "pr i" "tm i" i v st] fields Answered Some
      show ?thesis by (simp add: refreshEvent_def)
    qed
  next
    case (TerminateReturned i)
    with fields show ?thesis by (simp add: refreshEvent_def)
  qed
qed

lemma refreshEvents_matches:
  "matches (snd (snd (refreshEvents cfg pr tm evs c))) = matches (snd (snd c))"
  by (induction evs arbitrary: c) (simp_all add: refreshEvent_matches)

lemma refreshAll_matches: "matches (refreshAll cfg pr tm events entries st) = matches st"
  by (simp add: refreshAll_def settle_def Let_def refreshEvents_matches)

lemma launchBackupVM_matches: "matches (snd (launchBackupVM cfg e st)) = matches st"
  by (simp add: launchBackupVM_eq split: option.splits)

lemma getAvailableVM_matches: "matches (snd (getAvailableVM cfg env st)) = matches st"
  by (simp add: getAvailableVM_def Let_def refreshAll_matches launchBackupVM_matches
      split: list.splits prod.splits)

lemma syncRemove_matches: "matches (syncRemove cm ids st) = matches st"
  by (induction ids arbitrary: st) (auto simp add: dropVm_def split: option.splits list.splits)

lemma syncAdd_matches: "matches (syncAdd now insts st) = matches st"
  by (induction insts arbitrary: st) (auto split: list.splits)

lemma chooseOldest_matches: "matches (chooseOldest st) = matches st"
  by (simp add: chooseOldest_def split: list.splits)

lemma syncWithCloud_matches: "matches (syncWithCloud d now st) = matches st"
  by (simp add: syncWithCloud_def Let_def syncRemove_matches syncAdd_matches chooseOldest_matches
      split: option.splits)

lemma recomputeProtectedVM_matches: "matches (recomputeProtectedVM now st) = matches st"
  by (simp add: recomputeProtectedVM_def chooseOldest_matches Let_def
      split: option.splits list.splits)

lemma reconcileVm_matches: "matches (snd (reconcileVm cfg p now e acc)) = matches (snd acc)"
  by (cases p; cases e; cases acc)
     (simp_all add: reconcileVm_failed reconcileVm_data refreshVmStatus_matches terminated_def)

lemma reconcileAll_matches: "matches (snd (reconcileAll cfg pr tm entries acc)) = matches (snd acc)"
  by (induction entries arbitrary: acc) (simp_all add: reconcileVm_matches)

lemma launchMany_matches: "matches (launchMany cfg envs i k st) = matches st"
  by (induction k arbitrary: i st) (simp_all add: launchBackupVM_matches)

lemma topUp_matches: "matches (topUp cfg envs st) = matches st"
  by (simp add: topUp_def Let_def launchMany_matches)

lemma beforeScaleUp_matches: "matches (snd (beforeScaleUp cfg env st)) = matches st"
proof -
  obtain t s where r: "reconcileAll cfg (tickProbe env) (tickProbeTime env)
      (vmPool (syncWithCloud (describeAll env) (syncTime env) st))
      (0, syncWithCloud (describeAll env) (syncTime env) st) = (t, s)"
    by (cases "reconcileAll cfg (tickProbe env) (tickProbeTime env)
      (vmPool (syncWithCloud (describeAll env) (syncTime env) st))
      (0, syncWithCloud (describeAll env) (syncTime env) st)") auto
  from reconcileAll_matches [of cfg "tickProbe env" "tickProbeTime env"
      "vmPool (syncWithCloud (describeAll env) (syncTime env) st)"
      "(0, syncWithCloud (describeAll env) (syncTime env) st)"] r
  have "matches s = matches st"
    by (simp add: syncWithCloud_matches)
  with r show ?thesis
    by (simp add: beforeScaleUp_def Let_def topUp_matches)
qed

lemma updateVMs_matches: "matches (updateVMs cfg env st) = matches st"
  by (simp add: updateVMs_def Let_def recomputeProtectedVM_matches launchBackupVM_matches
      beforeScaleUp_matches)

lemma runTicks_matches: "matches (runTicks cfg ticks st) = matches st"
  by (induction ticks arbitrary: st) (simp_all add: updateVMs_matches)

lemma handleMatchRequest_matches:
  "matches (snd (handleMatchRequest cfg privacy req env st)) = matches st
   \<or> (\<exists>mid md rec. body_matchId req = Some mid
        \<and> fst (handleMatchRequest cfg privacy req env st) = Json md
        \<and> matches (snd (handleMatchRequest cfg privacy req env st)) = AList.update mid rec (matches st))"
proof -
  obtain r st1 where g: "getAvailableVM cfg (allocEnv env) st = (r, st1)"
    by (cases "getAvailableVM cfg (allocEnv env) st") auto
  with getAvailableVM_matches [of cfg "allocEnv env" st]
  have m: "matches st1 = matches st" "matches (runTicks cfg (meanwhile env) st1) = matches st"
    by (simp_all add: runTicks_matches)
  from g m show ?thesis
    by (auto simp add: handleMatchRequest_def completeMatchRequest_def Let_def
        split: option.splits if_splits)
qed

text \<open>
  C5, as the code has it. A match record stored under a non-empty id \<open>m\<close> is what the
  lookup endpoint returns; the lookup is a function of the state and changes nothing, so
  repeating it returns the same body. A reconciler tick leaves the record as it is. A
  match request never removes it, and leaves it as it is unless the request carries the
  same \<^verbatim>\<open>matchId\<close> and is answered with 200, in which case line 409 replaces it.
\<close>

theorem match_record_kept_until_replaced:
  assumes "map_of (matches st) m = Some r" and "m \<noteq> []"
  shows "matchDetails m st = Json r
    \<and> matchDetails m (updateVMs cfg tick st) = Json r
    \<and> matchDetails m (snd (handleMatchRequest cfg privacy req env st)) \<noteq> Status 404
    \<and> (matchDetails m (snd (handleMatchRequest cfg privacy req env st)) = Json r
        \<or> (body_matchId req = Some m
            \<and> (\<exists>md. fst (handleMatchRequest cfg privacy req env st) = Json md)))"
proof -
  from assms have now: "matchDetails m st = Json r"
    by (simp add: matchDetails_def)
  from assms have tick: "matchDetails m (updateVMs cfg tick st) = Json r"
    by (simp add: matchDetails_def updateVMs_matches)
  from handleMatchRequest_matches [of cfg privacy req env st]
  have req: "matchDetails m (snd (handleMatchRequest cfg privacy req env st)) \<noteq> Status 404
    \<and> (matchDetails m (snd (handleMatchRequest cfg privacy req env st)) = Json r
        \<or> (body_matchId req = Some m
            \<and> (\<exists>md. fst (handleMatchRequest cfg privacy req env st) = Json md)))"
  proof
    assume "matches (snd (handleMatchRequest cfg privacy req env st)) = matches st"
    with assms show ?thesis by (simp add: matchDetails_def)
  next
    assume "\<exists>mid md rec. body_matchId req = Some mid
        \<and> fst (handleMatchRequest cfg privacy req env st) = Json md
        \<and> matches (snd (handleMatchRequest cfg privacy req env st)) = AList.update mid rec (matches st)"
    then obtain mid md rec where h: "body_matchId req = Some mid"
        "fst (handleMatchRequest cfg privacy req env st) = Json md"
        "matches (snd (handleMatchRequest cfg privacy req env st)) = AList.update mid rec (matches st)"
      by blast
    show ?thesis
    proof (cases "mid = m")
      case True
      with h assms show ?thesis by (simp add: matchDetails_def AList.update_conv')
    next
      case False
      with h assms show ?thesis by (simp add: matchDetails_def AList.update_conv')
    qed
  qed
  from now tick req show ?thesis by blast
qed



lemma first_request_state:
  "snd (handleMatchRequest defaultConfig ''Public'' validRequest workerOk poolAB) =
     poolAB\<lparr>vmPool := [(''ins-a'', (probed (JNumber 2) 1000 vmA)\<lparr>matchCount := 3\<rparr>),
                       (''ins-b'', probed (JNumber 2) 1000 vmB)],
            matches := [(''m1'', firstMatch)]\<rparr>"
  by (simp add: handleMatchRequest_def completeMatchRequest_def sceneTruthy_def SCENE_MAP_def
      getAvailableVM_def candidates_def refreshAll_def settle_def refreshEvent_def
      probeAnswered_data probed_def writeBack_def
      launchUnityServerOnVM_def requestTickRate_def payloadMatchType_def defaultConfig_def
      workerOk_def healthy_def validRequest_def poolAB_def vmA_def vmB_def initialState_def Let_def
      match_data.extend_def firstMatch_def)

text \<open>
  C5 as the specification words it fails. A request for the match id \<open>m1\<close> is served
  by \<open>ins-a\<close>; a second request with the same id, seven seconds later, is served by
  \<open>ins-b\<close>. Line 409 assigns to \<^verbatim>\<open>matches[matchId]\<close> again, so the lookup of \<open>m1\<close>
  returns one body after the first request and another after the second.
\<close>

theorem match_record_replaced_counterexample:
  "matchDetails ''m1'' (snd (handleMatchRequest defaultConfig ''Public'' validRequest workerOk poolAB))
     = Json firstMatch
   \<and> matchDetails ''m1''
        (snd (handleMatchRequest defaultConfig ''Public'' validRequest retryEnv
               (snd (handleMatchRequest defaultConfig ''Public'' validRequest workerOk poolAB))))
     = Json secondMatch
   \<and> firstMatch \<noteq> secondMatch"
  unfolding first_request_state
  by (simp add: matchDetails_def handleMatchRequest_def completeMatchRequest_def sceneTruthy_def
      SCENE_MAP_def getAvailableVM_def candidates_def refreshAll_def settle_def refreshEvent_def
      probeAnswered_data probed_def writeBack_def
      launchUnityServerOnVM_def requestTickRate_def payloadMatchType_def defaultConfig_def
      retryEnv_def validRequest_def poolAB_def vmA_def vmB_def initialState_def Let_def
      match_data.extend_def firstMatch_def secondMatch_def)

theorem match_record_kept_until_replaced_witness:
  "map_of (matches poolWithMatch) ''m1'' = Some firstMatch
   \<and> matchDetails ''m1'' poolWithMatch = Json firstMatch
   \<and> matchDetails ''m1'' (updateVMs defaultConfig coldStart poolWithMatch) = Json firstMatch
   \<and> body_matchId otherRequest = Some ''m2''
   \<and> matchDetails ''m1''
        (snd (handleMatchRequest defaultConfig ''Private'' otherRequest workerOk poolWithMatch))
       = Json firstMatch"
proof -
  have stored: "map_of (matches poolWithMatch) ''m1'' = Some firstMatch"
    by (simp add: poolWithMatch_def)
  have named: "''m1'' \<noteq> []"
    by simp
  have other: "body_matchId otherRequest = Some ''m2''"
    by (simp add: otherRequest_def)
  from match_record_kept_until_replaced [OF stored named, of defaultConfig coldStart "''Private''" otherRequest workerOk]
    stored other
  show ?thesis by simp
qed

section \<open>What getAvailableVM does to the pool\<close>

lemma map_of_writeBack_other: "j \<noteq> i \<Longrightarrow> map_of (writeBack j v pool) i = map_of pool i"
  by (simp add: map_of_writeBack)

lemma probeAnswered_other:
  "j \<noteq> i \<Longrightarrow> map_of (vmPool (snd (probeAnswered cfg p now j v st))) i = map_of (vmPool st) i"
  by (cases p) (simp_all add: probeAnswered_failed probeAnswered_data map_of_writeBack_other)

lemma probeAnswered_log:
  "set (cloudLog st) \<subseteq> set (cloudLog (snd (probeAnswered cfg p now j v st)))"
  by (cases p) (auto simp add: probeAnswered_failed probeAnswered_data)

lemma refreshEvent_untouched:
  assumes "refreshEvent cfg pr tm ev (w, p, s) = (w', p', s')" and "\<not> touches ev i w p"
  shows "map_of w' i = map_of w i \<and> (i \<in> set p') = (i \<in> set p)
    \<and> map_of (vmPool s') i = map_of (vmPool s) i"
proof (cases ev)
  case (Answered j)
  show ?thesis
  proof (cases "map_of w j")
    case None
    with assms Answered show ?thesis by (simp add: refreshEvent_def)
  next
    case (Some v)
    with assms(2) Answered have ji: "j \<noteq> i"
      by (auto simp add: touches_def)
    obtain t s1 where pa: "probeAnswered cfg (pr j) (tm j) j v s = (t, s1)"
      by (cases "probeAnswered cfg (pr j) (tm j) j v s") auto
    with probeAnswered_other [OF ji, of cfg "pr j" "tm j" v s]
    have "map_of (vmPool s1) i = map_of (vmPool s) i" by simp
    with assms(1) Answered Some pa ji show ?thesis
      by (cases t) (auto simp add: refreshEvent_def AList.delete_conv')
  qed
next
  case (TerminateReturned j)
  with assms show ?thesis
    by (auto simp add: refreshEvent_def touches_def AList.delete_conv' split: if_splits)
qed

lemma refreshEvent_returned:
  assumes "i \<in> set p"
  shows "refreshEvent cfg pr tm (TerminateReturned i) (w, p, s) =
     (w, removeAll i p, s\<lparr>vmPool := AList.delete i (vmPool s)\<rparr>)"
  using assms by (simp add: refreshEvent_def)

lemma refreshEvent_log:
  assumes "refreshEvent cfg pr tm ev (w, p, s) = (w', p', s')"
  shows "set (cloudLog s) \<subseteq> set (cloudLog s')"
proof (cases ev)
  case (Answered j)
  show ?thesis
  proof (cases "map_of w j")
    case None
    with assms Answered show ?thesis by (simp add: refreshEvent_def)
  next
    case (Some v)
    obtain t s1 where pa: "probeAnswered cfg (pr j) (tm j) j v s = (t, s1)"
      by (cases "probeAnswered cfg (pr j) (tm j) j v s") auto
    with probeAnswered_log [of s cfg "pr j" "tm j" j v]
    have "set (cloudLog s) \<subseteq> set (cloudLog s1)" by simp
    with assms Answered Some pa show ?thesis
      by (auto simp add: refreshEvent_def)
  qed
next
  case (TerminateReturned j)
  with assms show ?thesis
    by (auto simp add: refreshEvent_def split: if_splits)
qed

lemma refreshEvents_log:
  "refreshEvents cfg pr tm evs (w, p, s) = (w', p', s') \<Longrightarrow> set (cloudLog s) \<subseteq> set (cloudLog s')"
proof (induction evs arbitrary: w p s)
  case Nil
  then show ?case by simp
next
  case (Cons ev evs)
  obtain w1 p1 s1 where one: "refreshEvent cfg pr tm ev (w, p, s) = (w1, p1, s1)"
    by (cases "refreshEvent cfg pr tm ev (w, p, s)") auto
  with Cons.prems have "refreshEvents cfg pr tm evs (w1, p1, s1) = (w', p', s')"
    by simp
  with Cons.IH have "set (cloudLog s1) \<subseteq> set (cloudLog s')" .
  with refreshEvent_log [OF one] show ?case by blast
qed

text \<open>An instance that is neither waiting nor pending is left alone.\<close>

lemma refreshEvents_settled:
  assumes "refreshEvents cfg pr tm evs (w, p, s) = (w', p', s')"
    and "map_of w i = None" and "i \<notin> set p"
  shows "map_of w' i = None \<and> i \<notin> set p' \<and> map_of (vmPool s') i = map_of (vmPool s) i"
  using assms
proof (induction evs arbitrary: w p s)
  case Nil
  then show ?case by simp
next
  case (Cons ev evs)
  obtain w1 p1 s1 where one: "refreshEvent cfg pr tm ev (w, p, s) = (w1, p1, s1)"
    by (cases "refreshEvent cfg pr tm ev (w, p, s)") auto
  from Cons.prems have "\<not> touches ev i w p"
    by (simp add: touches_def)
  with refreshEvent_untouched [OF one] Cons.prems
  have same: "map_of w1 i = None" "i \<notin> set p1" "map_of (vmPool s1) i = map_of (vmPool s) i"
    by simp_all
  from Cons.prems one have "refreshEvents cfg pr tm evs (w1, p1, s1) = (w', p', s')"
    by simp
  with Cons.IH same show ?case by simp
qed

text \<open>Until its probe answers, an instance that is not pending is left alone.\<close>

lemma refreshEvents_before_answer:
  assumes "refreshEvents cfg pr tm evs (w, p, s) = (w', p', s')"
    and "Answered i \<notin> set evs" and "i \<notin> set p"
  shows "map_of w' i = map_of w i \<and> i \<notin> set p' \<and> map_of (vmPool s') i = map_of (vmPool s) i"
  using assms
proof (induction evs arbitrary: w p s)
  case Nil
  then show ?case by simp
next
  case (Cons ev evs)
  obtain w1 p1 s1 where one: "refreshEvent cfg pr tm ev (w, p, s) = (w1, p1, s1)"
    by (cases "refreshEvent cfg pr tm ev (w, p, s)") auto
  from Cons.prems have "\<not> touches ev i w p"
    by (auto simp add: touches_def)
  with refreshEvent_untouched [OF one] Cons.prems
  have same: "map_of w1 i = map_of w i" "i \<notin> set p1" "map_of (vmPool s1) i = map_of (vmPool s) i"
    by simp_all
  from Cons.prems one have "refreshEvents cfg pr tm evs (w1, p1, s1) = (w', p', s')"
    "Answered i \<notin> set evs"
    by simp_all
  with Cons.IH same show ?case by simp
qed

text \<open>
  An instance whose termination call is awaited stays in the pool until the call
  returns, and is deleted when it does.
\<close>

lemma refreshEvents_pending:
  assumes "refreshEvents cfg pr tm evs (w, p, s) = (w', p', s')"
    and "map_of w i = None" and "i \<in> set p"
  shows "map_of w' i = None
    \<and> (if TerminateReturned i \<in> set evs
        then i \<notin> set p' \<and> map_of (vmPool s') i = None
        else i \<in> set p' \<and> map_of (vmPool s') i = map_of (vmPool s) i)"
  using assms
proof (induction evs arbitrary: w p s)
  case Nil
  then show ?case by simp
next
  case (Cons ev evs)
  show ?case
  proof (cases "ev = TerminateReturned i")
    case True
    with Cons.prems have rest: "refreshEvents cfg pr tm evs
        (w, removeAll i p, s\<lparr>vmPool := AList.delete i (vmPool s)\<rparr>) = (w', p', s')"
      by (simp add: refreshEvent_returned)
    from refreshEvents_settled [OF rest, of i] Cons.prems True show ?thesis
      by (simp add: AList.delete_conv')
  next
    case False
    obtain w1 p1 s1 where one: "refreshEvent cfg pr tm ev (w, p, s) = (w1, p1, s1)"
      by (cases "refreshEvent cfg pr tm ev (w, p, s)") auto
    from False Cons.prems have "\<not> touches ev i w p"
      by (simp add: touches_def)
    with refreshEvent_untouched [OF one] Cons.prems
    have same: "map_of w1 i = None" "i \<in> set p1" "map_of (vmPool s1) i = map_of (vmPool s) i"
      by simp_all
    from Cons.prems one have "refreshEvents cfg pr tm evs (w1, p1, s1) = (w', p', s')"
      by simp
    with Cons.IH [of w1 p1 s1] same False show ?thesis by simp
  qed
qed

lemma refreshEvents_append:
  "refreshEvents cfg pr tm (xs @ ys) c = refreshEvents cfg pr tm ys (refreshEvents cfg pr tm xs c)"
  by (induction xs arbitrary: c) auto

text \<open>When the promises have all settled.\<close>

lemma settle_settled:
  assumes "map_of w i = None" and "i \<notin> set p"
  shows "map_of (vmPool (settle cfg pr tm (w, p, s))) i = map_of (vmPool s) i"
proof -
  obtain w1 p1 s1 where c1: "refreshEvents cfg pr tm (map (\<lambda>entry. Answered (fst entry)) w) (w, p, s)
      = (w1, p1, s1)"
    by (cases "refreshEvents cfg pr tm (map (\<lambda>entry. Answered (fst entry)) w) (w, p, s)") auto
  obtain w2 p2 s2 where c2: "refreshEvents cfg pr tm (map TerminateReturned p1) (w1, p1, s1)
      = (w2, p2, s2)"
    by (cases "refreshEvents cfg pr tm (map TerminateReturned p1) (w1, p1, s1)") auto
  from refreshEvents_settled [OF c1 assms]
  have one: "map_of w1 i = None" "i \<notin> set p1" "map_of (vmPool s1) i = map_of (vmPool s) i"
    by simp_all
  from refreshEvents_settled [OF c2 one(1) one(2)] one(3)
  have "map_of (vmPool s2) i = map_of (vmPool s) i"
    by simp
  with c1 c2 show ?thesis
    by (simp add: settle_def)
qed

lemma settle_pending:
  assumes "map_of w i = None" and "i \<in> set p"
  shows "map_of (vmPool (settle cfg pr tm (w, p, s))) i = None"
proof -
  obtain w1 p1 s1 where c1: "refreshEvents cfg pr tm (map (\<lambda>entry. Answered (fst entry)) w) (w, p, s)
      = (w1, p1, s1)"
    by (cases "refreshEvents cfg pr tm (map (\<lambda>entry. Answered (fst entry)) w) (w, p, s)") auto
  obtain w2 p2 s2 where c2: "refreshEvents cfg pr tm (map TerminateReturned p1) (w1, p1, s1)
      = (w2, p2, s2)"
    by (cases "refreshEvents cfg pr tm (map TerminateReturned p1) (w1, p1, s1)") auto
  have "TerminateReturned i \<notin> set (map (\<lambda>entry. Answered (fst entry)) w)"
    by auto
  with refreshEvents_pending [OF c1 assms]
  have one: "map_of w1 i = None" "i \<in> set p1"
    by simp_all
  then have "TerminateReturned i \<in> set (map TerminateReturned p1)"
    by simp
  with refreshEvents_pending [OF c2 one]
  have "map_of (vmPool s2) i = None"
    by simp
  with c1 c2 show ?thesis
    by (simp add: settle_def)
qed

lemma settle_log: "set (cloudLog s) \<subseteq> set (cloudLog (settle cfg pr tm (w, p, s)))"
proof -
  obtain w1 p1 s1 where c1: "refreshEvents cfg pr tm (map (\<lambda>entry. Answered (fst entry)) w) (w, p, s)
      = (w1, p1, s1)"
    by (cases "refreshEvents cfg pr tm (map (\<lambda>entry. Answered (fst entry)) w) (w, p, s)") auto
  obtain w2 p2 s2 where c2: "refreshEvents cfg pr tm (map TerminateReturned p1) (w1, p1, s1)
      = (w2, p2, s2)"
    by (cases "refreshEvents cfg pr tm (map TerminateReturned p1) (w1, p1, s1)") auto
  from refreshEvents_log [OF c1] refreshEvents_log [OF c2]
  have "set (cloudLog s) \<subseteq> set (cloudLog s2)"
    by blast
  with c1 c2 show ?thesis
    by (simp add: settle_def)
qed

text \<open>The rest of the run, from a state in which the probe of \<open>i\<close> has answered.\<close>

lemma answered_then_settled:
  assumes "map_of w i = None" and "i \<notin> set p"
  shows "map_of (vmPool (settle cfg pr tm (refreshEvents cfg pr tm evs (w, p, s)))) i
           = map_of (vmPool s) i"
proof -
  obtain w1 p1 s1 where c1: "refreshEvents cfg pr tm evs (w, p, s) = (w1, p1, s1)"
    by (cases "refreshEvents cfg pr tm evs (w, p, s)") auto
  from refreshEvents_settled [OF c1 assms] settle_settled [of w1 i p1 cfg pr tm s1] c1
  show ?thesis by simp
qed

lemma answered_then_deleted:
  assumes "map_of w i = None" and "i \<in> set p"
  shows "map_of (vmPool (settle cfg pr tm (refreshEvents cfg pr tm evs (w, p, s)))) i = None"
proof -
  obtain w1 p1 s1 where c1: "refreshEvents cfg pr tm evs (w, p, s) = (w1, p1, s1)"
    by (cases "refreshEvents cfg pr tm evs (w, p, s)") auto
  note now = refreshEvents_pending [OF c1 assms]
  show ?thesis
  proof (cases "TerminateReturned i \<in> set evs")
    case True
    with now have "map_of w1 i = None" "i \<notin> set p1" "map_of (vmPool s1) i = None"
      by simp_all
    with settle_settled [of w1 i p1 cfg pr tm s1] c1 show ?thesis by simp
  next
    case False
    with now have "map_of w1 i = None" "i \<in> set p1"
      by simp_all
    with settle_pending [of w1 i p1 cfg pr tm s1] c1 show ?thesis by simp
  qed
qed

lemma run_log:
  "set (cloudLog s) \<subseteq> set (cloudLog (settle cfg pr tm (refreshEvents cfg pr tm evs (w, p, s))))"
proof -
  obtain w1 p1 s1 where c1: "refreshEvents cfg pr tm evs (w, p, s) = (w1, p1, s1)"
    by (cases "refreshEvents cfg pr tm evs (w, p, s)") auto
  from refreshEvents_log [OF c1] settle_log [of s1 cfg pr tm w1 p1] c1
  show ?thesis by auto
qed

lemma launchBackupVM_other:
  "runResult e \<noteq> Some i \<Longrightarrow>
   map_of (vmPool (snd (launchBackupVM cfg e st))) i = map_of (vmPool st) i"
  by (auto simp add: launchBackupVM_eq AList.update_conv' AList.delete_conv' split: option.splits)

lemma launchBackupVM_log:
  "set (cloudLog st) \<subseteq> set (cloudLog (snd (launchBackupVM cfg e st)))"
  by (auto simp add: launchBackupVM_eq split: option.splits)

text \<open>What choosing a candidate or launching does to a key, after the probes.\<close>

lemma getAvailableVM_after_refresh:
  assumes "getAvailableVM cfg env st = (r, st')"
    and "runResult (launchEnv env) \<noteq> Some i"
  shows "map_of (vmPool st') i
           = map_of (vmPool (refreshAll cfg (probeOf env) (probeTime env) (arrival env)
                               (vmPool st) st)) i
    \<and> set (cloudLog (refreshAll cfg (probeOf env) (probeTime env) (arrival env) (vmPool st) st))
         \<subseteq> set (cloudLog st')
    \<and> (map_of (vmPool st') i = None \<longrightarrow> (\<forall>a. r \<noteq> Some (i, a)))"
proof -
  from getAvailableVM_in_pool assms(1)
  have inpool: "map_of (vmPool st') i = None \<longrightarrow> (\<forall>a. r \<noteq> Some (i, a))"
    by blast
  let ?s = "refreshAll cfg (probeOf env) (probeTime env) (arrival env) (vmPool st) st"
  show ?thesis
  proof (cases "candidates cfg ?s")
    case Nil
    with assms(1) have l: "launchBackupVM cfg (launchEnv env) ?s = (r, st')"
      by (simp add: getAvailableVM_def Let_def)
    then have "st' = snd (launchBackupVM cfg (launchEnv env) ?s)" by simp
    with launchBackupVM_other [OF assms(2)] launchBackupVM_log inpool show ?thesis
      by simp
  next
    case (Cons c cs)
    with assms(1) have "st' = ?s"
      by (cases c) (simp add: getAvailableVM_def Let_def)
    with inpool show ?thesis by simp
  qed
qed

text \<open>
  C10, as the code has it. \<^verbatim>\<open>getAvailableVM\<close> rewrites the record of every VM it
  probes. Let \<open>v\<close> be the record of \<open>i\<close> in the pool, and let the probe of \<open>i\<close> answer
  after the events \<open>pre\<close>, which lead to the state \<open>sm\<close>. After a successful probe the pool
  holds the record with the normalised \<^verbatim>\<open>matchCount\<close>, \<^verbatim>\<open>unreachableCount\<close> 0 and the
  new \<^verbatim>\<open>lastSeen\<close>. After a failed probe, if the failure count reaches
  \<^verbatim>\<open>VM_UNREACHABLE_TERMINATE_THRESHOLD\<close> and, in \<open>sm\<close>, the VM is old enough, is not the
  protected VM and the pool is above \<^verbatim>\<open>MIN_BACKUP_VMS\<close>, then the request path itself
  calls \<^verbatim>\<open>TerminateInstances\<close> for it, removes it from the pool and does not return
  it; otherwise the pool holds the record with the failure count raised by one. The pool
  of \<open>sm\<close> still counts every VM whose \<^verbatim>\<open>TerminateInstances\<close> call has not returned. The
  cloud does not hand out the id \<open>i\<close> again.
\<close>

theorem getAvailableVM_probe_effects:
  assumes pool: "map_of (vmPool st) i = Some v"
    and sched: "arrival env = pre @ Answered i # post"
    and first: "Answered i \<notin> set pre"
    and mid: "refreshEvents cfg (probeOf env) (probeTime env) pre (vmPool st, [], st) = (wm, pm, sm)"
    and fresh: "runResult (launchEnv env) \<noteq> Some i"
    and run: "getAvailableVM cfg env st = (r, st')"
  shows "(\<forall>a. probeOf env i = ProbeData a \<longrightarrow>
            map_of (vmPool st') i = Some (probed a (probeTime env i) v))
    \<and> (probeOf env i = ProbeFailed \<longrightarrow>
         (if VM_UNREACHABLE_TERMINATE_THRESHOLD cfg \<le> unreachableCount v + 1
             \<and> mayTerminate cfg (probeTime env i) i v sm
          then TerminateInstances i \<in> set (cloudLog st') \<and> map_of (vmPool st') i = None
               \<and> (\<forall>a. r \<noteq> Some (i, a))
          else map_of (vmPool st') i = Some (v\<lparr>unreachableCount := unreachableCount v + 1\<rparr>)))"
proof -
  let ?pr = "probeOf env" and ?tm = "probeTime env"
  from refreshEvents_before_answer [OF mid first] pool
  have wm: "map_of wm i = Some v" and pm: "i \<notin> set pm" and sm: "map_of (vmPool sm) i = Some v"
    by simp_all
  obtain t s2 where pa: "probeAnswered cfg (?pr i) (?tm i) i v sm = (t, s2)"
    by (cases "probeAnswered cfg (?pr i) (?tm i) i v sm") auto
  let ?p2 = "if t then pm @ [i] else pm"
  let ?end = "settle cfg ?pr ?tm (refreshEvents cfg ?pr ?tm post (AList.delete i wm, ?p2, s2))"
  from wm pa have step: "refreshEvent cfg ?pr ?tm (Answered i) (wm, pm, sm)
      = (AList.delete i wm, ?p2, s2)"
    by (simp add: refreshEvent_def)
  from sched mid step
  have full: "refreshAll cfg ?pr ?tm (arrival env) (vmPool st) st = ?end"
    by (simp add: refreshAll_def refreshEvents_append)
  have gone: "map_of (AList.delete i wm) i = None"
    by (simp add: AList.delete_conv')
  from getAvailableVM_after_refresh [OF run fresh] full
  have final: "map_of (vmPool st') i = map_of (vmPool ?end) i"
    and log: "set (cloudLog ?end) \<subseteq> set (cloudLog st')"
    and chosen: "map_of (vmPool st') i = None \<longrightarrow> (\<forall>a. r \<noteq> Some (i, a))"
    by simp_all
  have data: "map_of (vmPool st') i = Some (probed a (?tm i) v)"
    if d: "?pr i = ProbeData a" for a
  proof -
    from d pa have "t = False" "s2 = sm\<lparr>vmPool := writeBack i (probed a (?tm i) v) (vmPool sm)\<rparr>"
      by (simp_all add: probeAnswered_data)
    with answered_then_settled [OF gone, of ?p2 cfg ?pr ?tm post s2] pm sm final
    show ?thesis
      by (simp add: map_of_writeBack)
  qed
  have failed: "if VM_UNREACHABLE_TERMINATE_THRESHOLD cfg \<le> unreachableCount v + 1
             \<and> mayTerminate cfg (?tm i) i v sm
          then TerminateInstances i \<in> set (cloudLog st') \<and> map_of (vmPool st') i = None
               \<and> (\<forall>a. r \<noteq> Some (i, a))
          else map_of (vmPool st') i = Some (v\<lparr>unreachableCount := unreachableCount v + 1\<rparr>)"
    if f: "?pr i = ProbeFailed"
  proof (cases "VM_UNREACHABLE_TERMINATE_THRESHOLD cfg \<le> unreachableCount v + 1
             \<and> mayTerminate cfg (?tm i) i v sm")
    case True
    with f pa have t: "t = True" and called: "TerminateInstances i \<in> set (cloudLog s2)"
      by (auto simp add: probeAnswered_failed)
    from t have "i \<in> set ?p2" by simp
    from answered_then_deleted [OF gone this, of cfg ?pr ?tm post s2] final
    have none: "map_of (vmPool st') i = None"
      by simp
    from called run_log [of s2 cfg ?pr ?tm post "AList.delete i wm" ?p2] log
    have "TerminateInstances i \<in> set (cloudLog st')"
      by blast
    with none chosen True show ?thesis by simp
  next
    case False
    with f pa have "t = False"
      "s2 = sm\<lparr>vmPool := writeBack i (v\<lparr>unreachableCount := unreachableCount v + 1\<rparr>) (vmPool sm)\<rparr>"
      by (auto simp add: probeAnswered_failed)
    with answered_then_settled [OF gone, of ?p2 cfg ?pr ?tm post s2] pm sm final False
    show ?thesis
      by (simp add: map_of_writeBack)
  qed
  from data failed show ?thesis by blast
qed

text \<open>
  The order of arrival decides. With the three answers before any return, the guard of
  \<open>ins-c\<close> still counts \<open>ins-b\<close> and both are terminated, which leaves one VM for a floor
  of two; when the call for \<open>ins-b\<close> returns first, \<open>ins-c\<close> is kept.
\<close>

lemma burst_run:
  "getAvailableVM twoWarm burst poolABC =
     (Some (''ins-a'', ''10.0.0.1''),
      poolABC\<lparr>vmPool := [(''ins-a'', vmA\<lparr>unreachableCount := 1\<rparr>)],
              cloudLog := [TerminateInstances ''ins-b'', TerminateInstances ''ins-c'']\<rparr>)"
  by (simp add: getAvailableVM_def candidates_def refreshAll_def settle_def refreshEvent_def
      probeAnswered_failed mayTerminate_def writeBack_def ageMinutes_def twoWarm_def
      defaultConfig_def burst_def poolABC_def vmA_def vmB_def vmC_def initialState_def Let_def)

lemma staggered_run:
  "getAvailableVM twoWarm staggered poolABC =
     (Some (''ins-a'', ''10.0.0.1''),
      poolABC\<lparr>vmPool := [(''ins-a'', vmA\<lparr>unreachableCount := 1\<rparr>),
                         (''ins-c'', vmC\<lparr>unreachableCount := 2\<rparr>)],
              cloudLog := [TerminateInstances ''ins-b'']\<rparr>)"
  by (simp add: getAvailableVM_def candidates_def refreshAll_def settle_def refreshEvent_def
      probeAnswered_failed mayTerminate_def writeBack_def ageMinutes_def twoWarm_def
      defaultConfig_def staggered_def poolABC_def vmA_def vmB_def vmC_def initialState_def Let_def)

text \<open>
  C10 as the claim words it fails: reaching the failure threshold at a sufficient age is
  not enough. Here \<open>ins-b\<close> is the protected VM of a pool of two; its probe fails for the
  second time ten minutes after its launch, and \<^verbatim>\<open>getAvailableVM\<close> neither terminates it
  nor removes it.
\<close>

theorem getAvailableVM_keeps_protected_counterexample:
  "getAvailableVM defaultConfig lateFail poolBA =
     (Some (''ins-a'', ''10.0.0.1''),
      poolBA\<lparr>vmPool := [(''ins-a'', vmA\<lparr>unreachableCount := 1\<rparr>),
                        (''ins-b'', vmB\<lparr>unreachableCount := 2\<rparr>)]\<rparr>)
   \<and> cloudLog poolBA = []
   \<and> probeOf lateFail ''ins-b'' = ProbeFailed
   \<and> VM_UNREACHABLE_TERMINATE_THRESHOLD defaultConfig \<le> unreachableCount vmB + 1
   \<and> of_int (VM_AGE_TERMINATE_MINUTES defaultConfig) \<le> ageMinutes (probeTime lateFail ''ins-b'') vmB"
  by (simp add: getAvailableVM_def candidates_def refreshAll_def settle_def refreshEvent_def
      probeAnswered_failed mayTerminate_def writeBack_def ageMinutes_def defaultConfig_def
      lateFail_def poolBA_def poolAB_def vmA_def vmB_def initialState_def Let_def)

theorem getAvailableVM_probe_effects_witness:
  "getAvailableVM twoWarm burst poolABC =
     (Some (''ins-a'', ''10.0.0.1''),
      poolABC\<lparr>vmPool := [(''ins-a'', vmA\<lparr>unreachableCount := 1\<rparr>)],
              cloudLog := [TerminateInstances ''ins-b'', TerminateInstances ''ins-c'']\<rparr>)
   \<and> length (vmPool poolABC) = 3 \<and> MIN_BACKUP_VMS twoWarm = 2
   \<and> TerminateInstances ''ins-c'' \<in> set (cloudLog (snd (getAvailableVM twoWarm burst poolABC)))
   \<and> map_of (vmPool (snd (getAvailableVM twoWarm burst poolABC))) ''ins-c'' = None
   \<and> map_of (vmPool (snd (getAvailableVM twoWarm burst poolABC))) ''ins-a''
       = Some (vmA\<lparr>unreachableCount := unreachableCount vmA + 1\<rparr>)
   \<and> map_of (vmPool (snd (getAvailableVM defaultConfig healthy poolAB))) ''ins-b''
       = Some (probed (JNumber 2) (probeTime healthy ''ins-b'') vmB)"
proof -
  let ?sm = "poolABC\<lparr>vmPool := [(''ins-a'', vmA\<lparr>unreachableCount := 1\<rparr>),
                               (''ins-b'', vmB\<lparr>unreachableCount := 2\<rparr>), (''ins-c'', vmC)],
                    cloudLog := [TerminateInstances ''ins-b'']\<rparr>"
  have poolC: "map_of (vmPool poolABC) ''ins-c'' = Some vmC"
    and poolA: "map_of (vmPool poolABC) ''ins-a'' = Some vmA"
    and poolB: "map_of (vmPool poolAB) ''ins-b'' = Some vmB"
    by (simp_all add: poolABC_def poolAB_def)
  have schedC: "arrival burst = [Answered ''ins-a'', Answered ''ins-b''] @ Answered ''ins-c''
        # [TerminateReturned ''ins-b'', TerminateReturned ''ins-c'']"
    and schedA: "arrival burst = [] @ Answered ''ins-a''
        # [Answered ''ins-b'', Answered ''ins-c'', TerminateReturned ''ins-b'',
           TerminateReturned ''ins-c'']"
    and schedB: "arrival healthy = [Answered ''ins-a''] @ Answered ''ins-b'' # []"
    by (simp_all add: burst_def healthy_def)
  have firstC: "Answered ''ins-c'' \<notin> set [Answered ''ins-a'', Answered ''ins-b'']"
    and firstA: "Answered ''ins-a'' \<notin> set []"
    and firstB: "Answered ''ins-b'' \<notin> set [Answered ''ins-a'']"
    by simp_all
  have midC: "refreshEvents twoWarm (probeOf burst) (probeTime burst)
        [Answered ''ins-a'', Answered ''ins-b''] (vmPool poolABC, [], poolABC)
      = ([(''ins-c'', vmC)], [''ins-b''], ?sm)"
    by (simp add: refreshEvent_def probeAnswered_failed mayTerminate_def writeBack_def
        ageMinutes_def twoWarm_def defaultConfig_def burst_def poolABC_def vmA_def vmB_def
        vmC_def initialState_def Let_def)
  have midA: "refreshEvents twoWarm (probeOf burst) (probeTime burst) []
        (vmPool poolABC, [], poolABC) = (vmPool poolABC, [], poolABC)"
    by simp
  have freshC: "runResult (launchEnv burst) \<noteq> Some ''ins-c''"
    and freshA: "runResult (launchEnv burst) \<noteq> Some ''ins-a''"
    and freshB: "runResult (launchEnv healthy) \<noteq> Some ''ins-b''"
    by (simp_all add: burst_def healthy_def neverReady_def)
  have fail: "probeOf burst ''ins-c'' = ProbeFailed" "probeOf burst ''ins-a'' = ProbeFailed"
    by (simp_all add: burst_def)
  have guardC: "VM_UNREACHABLE_TERMINATE_THRESHOLD twoWarm \<le> unreachableCount vmC + 1
      \<and> mayTerminate twoWarm (probeTime burst ''ins-c'') ''ins-c'' vmC ?sm"
    by (simp add: mayTerminate_def ageMinutes_def twoWarm_def defaultConfig_def burst_def
        poolABC_def vmC_def initialState_def)
  have guardA: "\<not> (VM_UNREACHABLE_TERMINATE_THRESHOLD twoWarm \<le> unreachableCount vmA + 1
      \<and> mayTerminate twoWarm (probeTime burst ''ins-a'') ''ins-a'' vmA poolABC)"
    by (simp add: twoWarm_def defaultConfig_def vmA_def)
  from getAvailableVM_probe_effects [OF poolC schedC firstC midC freshC surjective_pairing]
    fail guardC
  have c: "TerminateInstances ''ins-c'' \<in> set (cloudLog (snd (getAvailableVM twoWarm burst poolABC)))
     \<and> map_of (vmPool (snd (getAvailableVM twoWarm burst poolABC))) ''ins-c'' = None"
    by simp
  from getAvailableVM_probe_effects [OF poolA schedA firstA midA freshA surjective_pairing]
    fail guardA
  have a: "map_of (vmPool (snd (getAvailableVM twoWarm burst poolABC))) ''ins-a''
       = Some (vmA\<lparr>unreachableCount := unreachableCount vmA + 1\<rparr>)"
    by simp
  have dataB: "probeOf healthy ''ins-b'' = ProbeData (JNumber 2)"
    by (simp add: healthy_def)
  let ?mid = "refreshEvents defaultConfig (probeOf healthy) (probeTime healthy)
        [Answered ''ins-a''] (vmPool poolAB, [], poolAB)"
  have midB: "?mid = (fst ?mid, fst (snd ?mid), snd (snd ?mid))"
    by simp
  from getAvailableVM_probe_effects [OF poolB schedB firstB midB freshB surjective_pairing]
    dataB
  have b: "map_of (vmPool (snd (getAvailableVM defaultConfig healthy poolAB))) ''ins-b''
       = Some (probed (JNumber 2) (probeTime healthy ''ins-b'') vmB)"
    by simp
  have size: "length (vmPool poolABC) = 3" "MIN_BACKUP_VMS twoWarm = 2"
    by (simp_all add: poolABC_def twoWarm_def)
  have run: "getAvailableVM twoWarm burst poolABC =
     (Some (''ins-a'', ''10.0.0.1''),
      poolABC\<lparr>vmPool := [(''ins-a'', vmA\<lparr>unreachableCount := 1\<rparr>)],
              cloudLog := [TerminateInstances ''ins-b'', TerminateInstances ''ins-c'']\<rparr>)"
    by (simp add: getAvailableVM_def candidates_def refreshAll_def settle_def refreshEvent_def
        probeAnswered_failed mayTerminate_def writeBack_def ageMinutes_def twoWarm_def
        defaultConfig_def burst_def poolABC_def vmA_def vmB_def vmC_def initialState_def Let_def)
  from run size c a b show ?thesis by simp
qed

end
